theory Spec2Isabelle
  imports Complex_Main
begin

section \<open>Time marks: Interval and Point\<close>

text \<open>
  Times are Python floats in the source.  They are modelled as exact rationals: every
  comparison the code makes between two finite floats is the comparison of their values,
  and no theorem below depends on the rounding error of a float operation.
\<close>

record interval =
  minTime :: rat
  maxTime :: rat
  mark :: string
  strict :: bool

text \<open>
  \<open>strict_p\<close> is \<open>None\<close> until \<open>TextGrid.append\<close> creates the attribute on the point.
\<close>

record point =
  time :: rat
  mark_p :: string
  strict_p :: "bool option"

text \<open>
  Every exception below except \<open>TextGridError\<close>, \<open>EOFError\<close>, \<open>AttributeError\<close>,
  \<open>IndexError\<close>, \<open>TypeError\<close> and \<open>ZeroDivisionError\<close> is a Python \<open>ValueError\<close>; the constructor records
  the place that raises it together with the arguments the source passes.
\<close>

datatype error =
    ValueError_degenerate rat rat
  | ValueError_too_early rat
  | ValueError_too_late rat
  | ValueError_overlap interval interval
  | ValueError_duplicate interval
  | ValueError_duplicate_point point
  | ValueError_null_duration
  | ValueError_empty_sequence
  | ValueError_bad_entry string
  | ValueError_float string
  | ValueError_int string
  | EOFError string
  | TextGridError string
  | AttributeError
  | IndexError
  | TypeError
  | ZeroDivisionError

text \<open>\<open>logging.warning("Overlap for interval %s: (%f, %f)", mark, minTime, maxTime)\<close>\<close>

datatype warning = Overlap_warning string rat rat

definition Interval_init :: "rat \<Rightarrow> rat \<Rightarrow> string \<Rightarrow> error + interval" where
  "Interval_init minT maxT mrk =
     (if minT \<ge> maxT then Inl (ValueError_degenerate minT maxT)
      else Inr \<lparr>minTime = minT, maxTime = maxT, mark = mrk, strict = True\<rparr>)"

definition overlaps :: "interval \<Rightarrow> interval \<Rightarrow> bool" where
  "overlaps self other \<longleftrightarrow> minTime other < maxTime self \<and> minTime self < maxTime other"

text \<open>\<open>Interval.__lt__\<close> with an Interval on the right.\<close>

definition Interval_lt :: "interval \<Rightarrow> interval \<Rightarrow> error + bool \<times> warning list" where
  "Interval_lt self other =
     (if strict self \<and> overlaps self other then Inl (ValueError_overlap self other)
      else if overlaps self other then
        Inr (minTime self < minTime other,
             [Overlap_warning (mark self) (minTime self) (maxTime self)])
      else Inr (minTime self < minTime other, []))"

text \<open>\<open>Interval.__eq__\<close> with an Interval on the right: \<open>True\<close>, or a falsy \<open>None\<close>.\<close>

definition Interval_eq :: "interval \<Rightarrow> interval \<Rightarrow> bool" where
  "Interval_eq self other \<longleftrightarrow> minTime self = minTime other \<and> maxTime self = maxTime other"

definition bounds :: "interval \<Rightarrow> rat \<times> rat" where
  "bounds self = (minTime self, maxTime self)"

text \<open>\<open>Point.__lt__\<close> and \<open>Point.__gt__\<close> against a Point and against a number.\<close>

definition Point_lt :: "point \<Rightarrow> point \<Rightarrow> error + bool \<times> warning list" where
  "Point_lt self other = Inr (time self < time other, [])"

definition Point_lt_num :: "point \<Rightarrow> rat \<Rightarrow> bool" where
  "Point_lt_num self other \<longleftrightarrow> time self < other"

definition Point_gt_num :: "point \<Rightarrow> rat \<Rightarrow> bool" where
  "Point_gt_num self other \<longleftrightarrow> time self > other"

section \<open>Ordered tiers\<close>

text \<open>
  \<open>bisect.bisect_left(a, x)\<close>: the loop \<open>while lo < hi\<close> with \<open>a[mid] < x\<close> decided by
  the element's own \<open>__lt__\<close>, which may raise and may log.
\<close>

function bisect_left_loop ::
  "('a \<Rightarrow> 'b \<Rightarrow> error + bool \<times> warning list) \<Rightarrow> 'a list \<Rightarrow> 'b \<Rightarrow> nat \<Rightarrow> nat
     \<Rightarrow> error + nat \<times> warning list" where
  "bisect_left_loop lt a x lo hi =
     (if lo < hi then
        (case lt (a ! ((lo + hi) div 2)) x of
           Inl e \<Rightarrow> Inl e
         | Inr (b, w) \<Rightarrow>
             (case (if b then bisect_left_loop lt a x ((lo + hi) div 2 + 1) hi
                    else bisect_left_loop lt a x lo ((lo + hi) div 2)) of
                Inl e \<Rightarrow> Inl e
              | Inr (i, ws) \<Rightarrow> Inr (i, w @ ws)))
      else Inr (lo, []))"
  by pat_completeness auto
termination
  by (relation "measure (\<lambda>(lt, a, x, lo, hi). hi - lo)") auto

declare bisect_left_loop.simps [simp del]

definition bisect_left ::
  "('a \<Rightarrow> 'b \<Rightarrow> error + bool \<times> warning list) \<Rightarrow> 'a list \<Rightarrow> 'b \<Rightarrow> error + nat \<times> warning list" where
  "bisect_left lt a x = bisect_left_loop lt a x 0 (length a)"

text \<open>\<open>list.insert(i, x)\<close> for \<open>0 \<le> i \<le> len\<close>.\<close>

definition list_insert :: "'a list \<Rightarrow> nat \<Rightarrow> 'a \<Rightarrow> 'a list" where
  "list_insert xs i x = take i xs @ x # drop i xs"

text \<open>
  \<open>self.maxTime and t > self.maxTime\<close>: the first operand is Python truthiness, so
  \<open>None\<close> and \<open>0.0\<close> both skip the comparison.
\<close>

definition too_late :: "rat option \<Rightarrow> rat \<Rightarrow> bool" where
  "too_late maxT t = (case maxT of None \<Rightarrow> False | Some m \<Rightarrow> m \<noteq> 0 \<and> t > m)"

text \<open>
  A tier's name is what \<open>parse_line\<close> returned or what the caller passed: \<open>None\<close>, a
  string or a number.
\<close>

datatype pyval = PNone | PStr string | PNum rat

record intervaltier =
  name :: pyval
  minTime_t :: rat
  maxTime_t :: "rat option"
  intervals :: "interval list"
  strict_t :: bool

definition IntervalTier_init :: "pyval \<Rightarrow> rat \<Rightarrow> rat option \<Rightarrow> intervaltier" where
  "IntervalTier_init nm minT maxT =
     \<lparr>name = nm, minTime_t = minT, maxTime_t = maxT, intervals = [], strict_t = True\<rparr>"

definition addInterval :: "intervaltier \<Rightarrow> interval \<Rightarrow> error + intervaltier \<times> warning list" where
  "addInterval self i =
     (if minTime i < minTime_t self then Inl (ValueError_too_early (minTime_t self))
      else if too_late (maxTime_t self) (maxTime i)
        then Inl (ValueError_too_late (the (maxTime_t self)))
      else
        (case bisect_left Interval_lt (intervals self) i of
           Inl e \<Rightarrow> Inl e
         | Inr (k, ws) \<Rightarrow>
             if k \<noteq> length (intervals self) \<and> Interval_eq (intervals self ! k) i
             then Inl (ValueError_duplicate (intervals self ! k))
             else Inr (self\<lparr>intervals :=
                         list_insert (intervals self) k (i\<lparr>strict := strict_t self\<rparr>)\<rparr>, ws)))"

definition add :: "intervaltier \<Rightarrow> rat \<Rightarrow> rat \<Rightarrow> string \<Rightarrow> error + intervaltier \<times> warning list" where
  "add self minT maxT mrk =
     (case Interval_init minT maxT mrk of
        Inl e \<Rightarrow> Inl e
      | Inr i \<Rightarrow> addInterval self (i\<lparr>strict := strict_t self\<rparr>))"

text \<open>\<open>IntervalTier._fillInTheGaps\<close>: the loop over the intervals, then the last gap.\<close>

fun fill_loop :: "rat \<Rightarrow> interval list \<Rightarrow> string \<Rightarrow> interval list \<Rightarrow> error + rat \<times> interval list" where
  "fill_loop prev_t [] null output = Inr (prev_t, output)"
| "fill_loop prev_t (i # is) null output =
     (if prev_t < minTime i then
        (case Interval_init prev_t (minTime i) null of
           Inl e \<Rightarrow> Inl e
         | Inr g \<Rightarrow> fill_loop (maxTime i) is null (output @ [g, i]))
      else fill_loop (maxTime i) is null (output @ [i]))"

definition fillInTheGaps :: "intervaltier \<Rightarrow> string \<Rightarrow> error + interval list" where
  "fillInTheGaps self null =
     (case fill_loop (minTime_t self) (intervals self) null [] of
        Inl e \<Rightarrow> Inl e
      | Inr (prev_t, output) \<Rightarrow>
          (case maxTime_t self of
             None \<Rightarrow> Inr output
           | Some m \<Rightarrow>
               if prev_t < m then
                 (case Interval_init prev_t m null of
                    Inl e \<Rightarrow> Inl e
                  | Inr g \<Rightarrow> Inr (output @ [g]))
               else Inr output))"

text \<open>A caller's loop \<open>for (a, b, m) in xs: tier.add(a, b, m)\<close>.\<close>

fun add_all :: "intervaltier \<Rightarrow> (rat \<times> rat \<times> string) list \<Rightarrow> error + intervaltier \<times> warning list" where
  "add_all self [] = Inr (self, [])"
| "add_all self ((a, b, m) # xs) =
     (case add self a b m of
        Inl e \<Rightarrow> Inl e
      | Inr (self', w) \<Rightarrow>
          (case add_all self' xs of
             Inl e \<Rightarrow> Inl e
           | Inr (self'', ws) \<Rightarrow> Inr (self'', w @ ws)))"

text \<open>
  \<open>PointTier\<close>.  The class has no \<open>strict\<close> attribute; \<open>TextGrid.append\<close> creates one
  (\<open>strict_pt\<close> is \<open>None\<close> until then).
\<close>

record pointtier =
  name_pt :: pyval
  minTime_pt :: rat
  maxTime_pt :: "rat option"
  points :: "point list"
  strict_pt :: "bool option"


definition Point_init :: "rat \<Rightarrow> string \<Rightarrow> point" where
  "Point_init t mrk = \<lparr>time = t, mark_p = mrk, strict_p = None\<rparr>"

text \<open>
  \<open>PointTier.addPoint\<close>.  \<open>point > self.maxTime\<close> is \<open>Point.__gt__\<close> against a number,
  that is \<open>point.time > self.maxTime\<close>.
\<close>

definition addPoint :: "pointtier \<Rightarrow> point \<Rightarrow> error + pointtier" where
  "addPoint self p =
     (if Point_lt_num p (minTime_pt self) then Inl (ValueError_too_early (minTime_pt self))
      else if too_late (maxTime_pt self) (time p)
        then Inl (ValueError_too_late (the (maxTime_pt self)))
      else
        (case bisect_left Point_lt (points self) p of
           Inl e \<Rightarrow> Inl e
         | Inr (k, ws) \<Rightarrow>
             if k < length (points self) \<and> time (points self ! k) = time p
             then Inl (ValueError_duplicate_point p)
             else Inr (self\<lparr>points := list_insert (points self) k p\<rparr>)))"

definition add_p :: "pointtier \<Rightarrow> rat \<Rightarrow> string \<Rightarrow> error + pointtier" where
  "add_p self t mrk = addPoint self (Point_init t mrk)"

section \<open>Annotation sets\<close>

datatype tier = IntervalTier intervaltier | PointTier pointtier

fun tier_name :: "tier \<Rightarrow> pyval" where
  "tier_name (IntervalTier t) = name t"
| "tier_name (PointTier t) = name_pt t"

fun tier_minTime :: "tier \<Rightarrow> rat" where
  "tier_minTime (IntervalTier t) = minTime_t t"
| "tier_minTime (PointTier t) = minTime_pt t"

fun tier_maxTime :: "tier \<Rightarrow> rat option" where
  "tier_maxTime (IntervalTier t) = maxTime_t t"
| "tier_maxTime (PointTier t) = maxTime_pt t"

record textgrid =
  name_tg :: pyval
  minTime_tg :: rat
  maxTime_tg :: "rat option"
  tiers :: "tier list"
  strict_tg :: bool

definition TextGrid_init :: "pyval \<Rightarrow> rat \<Rightarrow> rat option \<Rightarrow> bool \<Rightarrow> textgrid" where
  "TextGrid_init nm minT maxT s =
     \<lparr>name_tg = nm, minTime_tg = minT, maxTime_tg = maxT, tiers = [], strict_tg = s\<rparr>"

text \<open>\<open>tier.strict = s\<close> followed by \<open>for i in tier: i.strict = s\<close>.\<close>

fun set_strict :: "bool \<Rightarrow> tier \<Rightarrow> tier" where
  "set_strict s (IntervalTier t) =
     IntervalTier (t\<lparr>strict_t := s, intervals := map (\<lambda>i. i\<lparr>strict := s\<rparr>) (intervals t)\<rparr>)"
| "set_strict s (PointTier t) =
     PointTier (t\<lparr>strict_pt := Some s, points := map (\<lambda>p. p\<lparr>strict_p := Some s\<rparr>) (points t)\<rparr>)"

text \<open>\<open>TextGrid.append\<close>\<close>

definition TextGrid_append :: "textgrid \<Rightarrow> tier \<Rightarrow> error + textgrid" where
  "TextGrid_append self tier =
     (case (maxTime_tg self, tier_maxTime tier) of
        (Some M, Some m) \<Rightarrow>
          if m > M then Inl (ValueError_too_late M)
          else Inr (self\<lparr>tiers := tiers self @ [set_strict (strict_tg self) tier]\<rparr>)
      | _ \<Rightarrow> Inr (self\<lparr>tiers := tiers self @ [set_strict (strict_tg self) tier]\<rparr>))"

text \<open>Python's \<open>min\<close> and \<open>max\<close> of a list: \<open>ValueError\<close> on the empty list.\<close>

fun py_min :: "rat list \<Rightarrow> error + rat" where
  "py_min [] = Inl ValueError_empty_sequence"
| "py_min (x # xs) = Inr (fold min xs x)"

fun py_max :: "rat list \<Rightarrow> error + rat" where
  "py_max [] = Inl ValueError_empty_sequence"
| "py_max (x # xs) = Inr (fold max xs x)"

text \<open>
  \<open>TextGrid.extend\<close>.  Both tests read \<open>t.minTime\<close>, the second one under
  \<open>self.maxTime and ...\<close>; nothing is written to the tiers.
\<close>

definition TextGrid_extend :: "textgrid \<Rightarrow> tier list \<Rightarrow> error + textgrid" where
  "TextGrid_extend self ts =
     (case py_min (map tier_minTime ts) of
        Inl e \<Rightarrow> Inl e
      | Inr lo \<Rightarrow>
          if lo < minTime_tg self then Inl (ValueError_too_early (minTime_tg self))
          else
            (case py_max (map tier_minTime ts) of
               Inl e \<Rightarrow> Inl e
             | Inr hi \<Rightarrow>
                 if too_late (maxTime_tg self) hi
                 then Inl (ValueError_too_late (the (maxTime_tg self)))
                 else Inr (self\<lparr>tiers := tiers self @ ts\<rparr>)))"

section \<open>Strings and numbers of the Python runtime\<close>

text \<open>
  Characters are 8-bit code points.  \<open>is_space\<close> is \<open>str.isspace\<close> on them, the set that
  \<open>str.strip\<close>, \<open>str.split\<close> and the pattern \<open>\s\<close> use.
\<close>

definition is_space :: "char \<Rightarrow> bool" where
  "is_space c \<longleftrightarrow> c \<in> set [CHR 0x09, CHR 0x0A, CHR 0x0B, CHR 0x0C, CHR 0x0D, CHR 0x1C, CHR 0x1D,
                          CHR 0x1E, CHR 0x1F, CHR 0x20, CHR 0x85, CHR 0xA0]"

definition lstrip :: "string \<Rightarrow> string" where
  "lstrip s = dropWhile is_space s"

definition rstrip :: "string \<Rightarrow> string" where
  "rstrip s = rev (dropWhile is_space (rev s))"

definition strip :: "string \<Rightarrow> string" where
  "strip s = lstrip (rstrip s)"

text \<open>\<open>str.split()\<close>: the maximal runs of non-space characters; \<open>w\<close> is the run being read.\<close>

fun split_run :: "string \<Rightarrow> string \<Rightarrow> string list" where
  "split_run w [] = (if w = [] then [] else [w])"
| "split_run w (c # cs) =
     (if is_space c then (if w = [] then split_run [] cs else w # split_run [] cs)
      else split_run (w @ [c]) cs)"

definition split :: "string \<Rightarrow> string list" where
  "split s = split_run [] s"

text \<open>
  The lines of a text file opened in text mode, each with its final newline:
  \<open>source.readline()\<close> returns the next of them, and \<open>''\<close> once they are used up.
\<close>

fun splitlines :: "string \<Rightarrow> string list" where
  "splitlines [] = []"
| "splitlines (c # cs) =
     (if c = CHR 0x0A then [c] # splitlines cs
      else (case splitlines cs of [] \<Rightarrow> [[c]] | l # ls \<Rightarrow> (c # l) # ls))"

fun readline :: "string list \<Rightarrow> string \<times> string list" where
  "readline [] = ([], [])"
| "readline (l # ls) = (l, ls)"

text \<open>
  \<open>float(s)\<close> on the decimal literals \<open>[+-]digits[.digits]\<close> and \<open>[+-].digits\<close>, between
  blanks.  The other spellings Python accepts (exponents, \<open>inf\<close>, \<open>nan\<close>, underscores) are
  not modelled: the model raises \<open>ValueError\<close> on them, and no theorem rests on that.
\<close>

definition is_digit :: "char \<Rightarrow> bool" where
  "is_digit c \<longleftrightarrow> (48::nat) \<le> of_char c \<and> of_char c \<le> (57::nat)"

definition digit_val :: "char \<Rightarrow> nat" where
  "digit_val c = of_char c - 48"

definition nat_of_digits :: "string \<Rightarrow> nat" where
  "nat_of_digits s = foldl (\<lambda>n c. 10 * n + digit_val c) 0 s"

definition unsigned_float :: "string \<Rightarrow> rat option" where
  "unsigned_float s =
     (let ip = takeWhile is_digit s; rest = dropWhile is_digit s in
      case rest of
        [] \<Rightarrow> if ip = [] then None else Some (of_nat (nat_of_digits ip))
      | c # fp \<Rightarrow>
          if c = CHR ''.'' \<and> list_all is_digit fp \<and> (ip \<noteq> [] \<or> fp \<noteq> [])
          then Some (of_nat (nat_of_digits ip) + of_nat (nat_of_digits fp) / 10 ^ length fp)
          else None)"

definition py_float :: "string \<Rightarrow> error + rat" where
  "py_float s =
     (case (case strip s of
              [] \<Rightarrow> None
            | c # cs \<Rightarrow>
                if c = CHR ''-'' then map_option uminus (unsigned_float cs)
                else if c = CHR ''+'' then unsigned_float cs
                else unsigned_float (c # cs)) of
        None \<Rightarrow> Inl (ValueError_float s)
      | Some x \<Rightarrow> Inr x)"



text \<open>
  \<open>round(x, n)\<close> for \<open>n \<ge> 0\<close> on the exact value: to the nearest multiple of \<open>10 ** -n\<close>,
  a tie going to the even one.
\<close>

definition round_half_even :: "rat \<Rightarrow> int" where
  "round_half_even r =
     (let f = \<lfloor>r\<rfloor>; d = r - of_int f in
      if d < 1 / 2 then f else if d > 1 / 2 then f + 1 else if even f then f else f + 1)"

definition py_round :: "rat \<Rightarrow> nat \<Rightarrow> rat" where
  "py_round x n = of_int (round_half_even (x * 10 ^ n)) / 10 ^ n"

section \<open>HTK master label files\<close>

text \<open>
  \<open>re.match('"(.*)"', s)\<close>: \<open>s\<close> begins with a quote and \<open>.*\<close>, which stops at a newline,
  runs to the last quote it can reach; the group is what lies between.
\<close>

definition match_name :: "string \<Rightarrow> string option" where
  "match_name s =
     (case s of
        [] \<Rightarrow> None
      | c # cs \<Rightarrow>
          if c \<noteq> CHR 0x22 then None
          else (let body = takeWhile (\<lambda>c. c \<noteq> CHR 0x0A) cs in
                if CHR 0x22 \<in> set body
                then Some (rev (tl (dropWhile (\<lambda>c. c \<noteq> CHR 0x22) (rev body))))
                else None))"

text \<open>\<open>round(float(s) / samplerate, round_digits)\<close>\<close>

definition sample_time :: "string \<Rightarrow> rat \<Rightarrow> nat \<Rightarrow> error + rat" where
  "sample_time s samplerate round_digits =
     (case py_float s of
        Inl e \<Rightarrow> Inl e
      | Inr x \<Rightarrow> if samplerate = 0 then Inl ZeroDivisionError
                  else Inr (py_round (x / samplerate) round_digits))"

text \<open>The per-utterance variables of \<open>MLF.read\<close>.\<close>

record utterance =
  phon :: intervaltier
  word :: intervaltier
  wmrk :: string
  wsrt :: rat
  wend :: rat

text \<open>\<open>if wmrk: word.add(wsrt, wend, wmrk)\<close>.  Both tiers are strict, so \<open>add\<close> logs nothing.\<close>

definition flush_word :: "utterance \<Rightarrow> error + utterance" where
  "flush_word u =
     (if wmrk u \<noteq> [] then
        (case add (word u) (wsrt u) (wend u) (wmrk u) of
           Inl e \<Rightarrow> Inl e
         | Inr (w, _) \<Rightarrow> Inr (u\<lparr>word := w\<rparr>))
      else Inr u)"

text \<open>
  The inner loop of \<open>MLF.read\<close>, \<open>while 1\<close> over the lines of one utterance.  It returns the
  utterance and the unread lines when it reaches the \<open>else\<close> branch (``it's a period'').
  At the end of the file \<open>readline\<close> gives \<open>''\<close>, which has no fields.
\<close>

fun utterance_loop :: "rat \<Rightarrow> nat \<Rightarrow> utterance \<Rightarrow> string list \<Rightarrow> error + utterance \<times> string list" where
  "utterance_loop samplerate round_digits u [] =
     (case add (word u) (wsrt u) (wend u) (wmrk u) of
        Inl e \<Rightarrow> Inl e
      | Inr (w, _) \<Rightarrow> Inr (u\<lparr>word := w\<rparr>, []))"
| "utterance_loop samplerate round_digits u (raw # source) =
     (let line = split (rstrip raw) in
      if length line = 4 then
        (case sample_time (line ! 0) samplerate round_digits of
           Inl e \<Rightarrow> Inl e
         | Inr pmin \<Rightarrow>
        (case sample_time (line ! 1) samplerate round_digits of
           Inl e \<Rightarrow> Inl e
         | Inr pmax \<Rightarrow>
             if pmin = pmax then Inl ValueError_null_duration
             else
               (case add (phon u) pmin pmax (line ! 2) of
                  Inl e \<Rightarrow> Inl e
                | Inr (p, _) \<Rightarrow>
               (case flush_word (u\<lparr>phon := p\<rparr>) of
                  Inl e \<Rightarrow> Inl e
                | Inr u' \<Rightarrow>
                    utterance_loop samplerate round_digits
                      (u'\<lparr>wmrk := line ! 3, wsrt := pmin, wend := pmax\<rparr>) source))))
      else if length line = 3 then
        (case sample_time (line ! 0) samplerate round_digits of
           Inl e \<Rightarrow> Inl e
         | Inr pmin \<Rightarrow>
        (case sample_time (line ! 1) samplerate round_digits of
           Inl e \<Rightarrow> Inl e
         | Inr pmax \<Rightarrow>
             if line ! 2 = ''sp'' \<and> pmin \<noteq> pmax then
               (case flush_word u of
                  Inl e \<Rightarrow> Inl e
                | Inr u' \<Rightarrow>
                    utterance_loop samplerate round_digits
                      (u'\<lparr>wmrk := line ! 2, wsrt := pmin, wend := pmax\<rparr>) source)
             else if pmin \<noteq> pmax then
               (case add (phon u) pmin pmax (line ! 2) of
                  Inl e \<Rightarrow> Inl e
                | Inr (p, _) \<Rightarrow>
                    utterance_loop samplerate round_digits (u\<lparr>phon := p, wend := pmax\<rparr>) source)
             else utterance_loop samplerate round_digits (u\<lparr>wend := pmax\<rparr>) source))
      else
        (case add (word u) (wsrt u) (wend u) (wmrk u) of
           Inl e \<Rightarrow> Inl e
         | Inr (w, _) \<Rightarrow> Inr (u\<lparr>word := w\<rparr>, source)))"

lemma utterance_loop_shrinks:
  "utterance_loop sr rd u src = Inr (u', rest) \<Longrightarrow> length rest \<le> length src"
proof (induction src arbitrary: u)
  case Nil
  then show ?case by (auto split: sum.splits)
next
  case (Cons raw src)
  show ?case
    using Cons.prems
    by (auto simp: Let_def split: sum.splits if_splits dest!: Cons.IH)
qed

text \<open>
  \<open>MLF.read\<close> after the header line: the outer \<open>while True\<close>.  A line that is not a quoted
  name, or the end of the file, ends the loop.
\<close>

function grids_loop :: "rat \<Rightarrow> nat \<Rightarrow> textgrid list \<Rightarrow> string list \<Rightarrow> error + textgrid list" where
  "grids_loop samplerate round_digits grids [] = Inr grids"
| "grids_loop samplerate round_digits grids (raw # source) =
     (case match_name (rstrip raw) of
        None \<Rightarrow> Inr grids
      | Some nm \<Rightarrow>
          (case utterance_loop samplerate round_digits
                  \<lparr>phon = IntervalTier_init (PStr ''phones'') 0 None,
                   word = IntervalTier_init (PStr ''words'') 0 None,
                   wmrk = [], wsrt = 0, wend = 0\<rparr> source of
             Inl e \<Rightarrow> Inl e
           | Inr (u, rest) \<Rightarrow>
          (case TextGrid_append (TextGrid_init (PStr nm) 0 None True) (IntervalTier (phon u)) of
             Inl e \<Rightarrow> Inl e
           | Inr grid \<Rightarrow>
          (case TextGrid_append grid (IntervalTier (word u)) of
             Inl e \<Rightarrow> Inl e
           | Inr grid' \<Rightarrow> grids_loop samplerate round_digits (grids @ [grid']) rest))))"
  by pat_completeness auto
termination
  by (relation "measure (\<lambda>(sr, rd, grids, src). length src)")
    (auto dest: utterance_loop_shrinks)

definition MLF_read :: "string \<Rightarrow> rat \<Rightarrow> nat \<Rightarrow> error + textgrid list" where
  "MLF_read text samplerate round_digits =
     grids_loop samplerate round_digits [] (snd (readline (splitlines text)))"

definition DEFAULT_MLF_PRECISION :: nat where
  "DEFAULT_MLF_PRECISION = 5"

section \<open>Praat text files: lines, fields and marks\<close>

text \<open>
  \<open>codecs.open(f, 'r', encoding)\<close> gives a stream whose \<open>readline\<close> cuts the decoded text
  where \<open>str.splitlines(keepends=True)\<close> does: after each line boundary, \<open>\r\n\<close> counting
  as one.  The model starts from the decoded text; detecting the encoding is outside it.
\<close>

definition is_linebreak :: "char \<Rightarrow> bool" where
  "is_linebreak c \<longleftrightarrow> c \<in> set [CHR 0x0A, CHR 0x0B, CHR 0x0C, CHR 0x0D, CHR 0x1C, CHR 0x1D,
                              CHR 0x1E, CHR 0x85]"














text \<open>\<open>text.replace('"', '""')\<close> and \<open>text.replace('""', '"')\<close>\<close>

fun formatMark :: "string \<Rightarrow> string" where
  "formatMark [] = []"
| "formatMark (c # cs) = (if c = CHR 0x22 then c # c # formatMark cs else c # formatMark cs)"






section \<open>Reading and writing TextGrid files\<close>

text \<open>Sequencing of calls that may raise.\<close>

definition ebind :: "error + 'a \<Rightarrow> ('a \<Rightarrow> error + 'b) \<Rightarrow> error + 'b" where
  "ebind m f = (case m of Inl e \<Rightarrow> Inl e | Inr x \<Rightarrow> f x)"









text \<open>
  \<open>'{0}'.format(n)\<close> for a length or an index, and for a float in the range where Python
  prints positional notation: the sign, the integer part, a point and the fractional
  digits, at least one and at most 17.  Python's shortest-digits algorithm and its exponent
  notation are not modelled.
\<close>

definition digit_char :: "nat \<Rightarrow> char" where
  "digit_char d = char_of (48 + d)"

fun show_nat :: "nat \<Rightarrow> string" where
  "show_nat n = (if n < 10 then [digit_char n] else show_nat (n div 10) @ [digit_char (n mod 10)])"

declare show_nat.simps [simp del]

fun frac_digits :: "nat \<Rightarrow> rat \<Rightarrow> string" where
  "frac_digits 0 r = []"
| "frac_digits (Suc k) r =
     (let d = \<lfloor>r * 10\<rfloor>; r' = r * 10 - of_int d in
      digit_char (nat d) # (if r' = 0 then [] else frac_digits k r'))"

definition format_float :: "rat \<Rightarrow> string" where
  "format_float x =
     (if x < 0 then ''-'' else []) @ show_nat (nat \<lfloor>\<bar>x\<bar>\<rfloor>) @ ''.''
       @ frac_digits 17 (\<bar>x\<bar> - of_int \<lfloor>\<bar>x\<bar>\<rfloor>)"

text \<open>\<open>str(v)\<close> as \<open>format\<close> prints a tier's name.\<close>

fun py_str :: "pyval \<Rightarrow> string" where
  "py_str PNone = ''None''"
| "py_str (PStr s) = s"
| "py_str (PNum x) = format_float x"

definition tabs :: "nat \<Rightarrow> string" where
  "tabs n = replicate n (CHR 0x09)"

text \<open>
  \<open>t.maxTime if t.maxTime else t[-1].maxTime\<close>: the last element of an empty tier raises
  \<open>IndexError\<close>, and a Point has no \<open>maxTime\<close>.
\<close>

fun tier_end :: "tier \<Rightarrow> error + rat" where
  "tier_end (IntervalTier t) =
     (case maxTime_t t of
        Some m \<Rightarrow> if m \<noteq> 0 then Inr m
                  else if intervals t = [] then Inl IndexError
                  else Inr (maxTime (last (intervals t)))
      | None \<Rightarrow> if intervals t = [] then Inl IndexError
                else Inr (maxTime (last (intervals t))))"
| "tier_end (PointTier t) =
     (case maxTime_pt t of
        Some m \<Rightarrow> if m \<noteq> 0 then Inr m
                  else if points t = [] then Inl IndexError
                  else Inl AttributeError
      | None \<Rightarrow> if points t = [] then Inl IndexError
                else Inl AttributeError)"

text \<open>A list comprehension whose elements may raise.\<close>

fun sequence :: "(error + 'a) list \<Rightarrow> error + 'a list" where
  "sequence [] = Inr []"
| "sequence (m # ms) = ebind m (\<lambda>x. ebind (sequence ms) (\<lambda>xs. Inr (x # xs)))"

definition write_maxT :: "textgrid \<Rightarrow> error + rat" where
  "write_maxT self =
     (case maxTime_tg self of
        Some m \<Rightarrow> if m \<noteq> 0 then Inr m
                  else ebind (sequence (map tier_end (tiers self))) py_max
      | None \<Rightarrow> ebind (sequence (map tier_end (tiers self))) py_max)"

text \<open>The arguments of the \<open>print\<close> calls of \<open>TextGrid.write\<close> for an interval, a point, a tier.\<close>

definition interval_prints :: "nat \<Rightarrow> interval \<Rightarrow> string list" where
  "interval_prints j i =
     [tabs 3 @ ''intervals ['' @ show_nat j @ '']:'',
      tabs 4 @ ''xmin = '' @ format_float (minTime i),
      tabs 4 @ ''xmax = '' @ format_float (maxTime i),
      tabs 4 @ ''text = \"'' @ formatMark (mark i) @ ''\"'']"

definition point_prints :: "nat \<Rightarrow> point \<Rightarrow> string list" where
  "point_prints k p =
     [tabs 3 @ ''points ['' @ show_nat k @ '']:'',
      tabs 4 @ ''time = '' @ format_float (time p),
      tabs 4 @ ''mark = \"'' @ formatMark (mark_p p) @ ''\"'']"

text \<open>\<open>enumerate(xs, 1)\<close>\<close>

definition enumerate1 :: "'a list \<Rightarrow> (nat \<times> 'a) list" where
  "enumerate1 xs = zip [1..<Suc (length xs)] xs"

fun tier_prints :: "rat \<Rightarrow> string \<Rightarrow> nat \<Rightarrow> tier \<Rightarrow> error + string list" where
  "tier_prints maxT null i (IntervalTier t) =
     ebind (fillInTheGaps t null) (\<lambda>output.
       Inr ([tabs 1 @ ''item ['' @ show_nat i @ '']:'',
             tabs 2 @ ''class = \"IntervalTier\"'',
             tabs 2 @ ''name = \"'' @ py_str (name t) @ ''\"'',
             tabs 2 @ ''xmin = '' @ format_float (minTime_t t),
             tabs 2 @ ''xmax = '' @ format_float maxT,
             tabs 2 @ ''intervals: size = '' @ show_nat (length output)]
            @ concat (map (\<lambda>(j, x). interval_prints j x) (enumerate1 output))))"
| "tier_prints maxT null i (PointTier t) =
     Inr ([tabs 1 @ ''item ['' @ show_nat i @ '']:'',
           tabs 2 @ ''class = \"TextTier\"'',
           tabs 2 @ ''name = \"'' @ py_str (name_pt t) @ ''\"'',
           tabs 2 @ ''xmin = '' @ format_float (minTime_pt t),
           tabs 2 @ ''xmax = '' @ format_float maxT,
           tabs 2 @ ''points: size = '' @ show_nat (length (points t))]
          @ concat (map (\<lambda>(k, p). point_prints k p) (enumerate1 (points t))))"

text \<open>
  \<open>TextGrid.write\<close>: the text that the \<open>print\<close> calls leave in the file when none of them
  raises, each followed by a newline.
\<close>

definition TextGrid_write :: "textgrid \<Rightarrow> string \<Rightarrow> error + string" where
  "TextGrid_write self null =
     ebind (write_maxT self) (\<lambda>maxT.
     ebind (sequence (map (\<lambda>(i, t). tier_prints maxT null i t) (enumerate1 (tiers self)))) (\<lambda>tps.
       Inr (concat (map (\<lambda>p. p @ [CHR 0x0A])
         ([''File type = \"ooTextFile\"'',
           ''Object class = \"TextGrid\"\<newline>'',
           ''xmin = '' @ format_float (minTime_tg self),
           ''xmax = '' @ format_float maxT,
           ''tiers? <exists>'',
           ''size = '' @ show_nat (length (tiers self)),
           ''item []:'']
          @ concat tps)))))"


section \<open>Specification predicates\<close>

text \<open>
  \<open>covers a xs b\<close>: the intervals \<open>xs\<close>, in order, tile \<open>[a, b]\<close>: the first starts at
  \<open>a\<close>, each has positive duration, each next one starts where the previous one ends, and
  the last ends at \<open>b\<close>.
\<close>

fun covers :: "rat \<Rightarrow> interval list \<Rightarrow> rat \<Rightarrow> bool" where
  "covers a [] b = (a = b)"
| "covers a (x # xs) b = (minTime x = a \<and> minTime x < maxTime x \<and> covers (maxTime x) xs b)"

text \<open>What the constructor guarantees of every Interval: a positive duration.\<close>

definition positive_durations :: "interval list \<Rightarrow> bool" where
  "positive_durations xs = list_all (\<lambda>i. minTime i < maxTime i) xs"

text \<open>No two intervals of the list overlap (\<open>overlaps\<close> is symmetric).\<close>

definition non_overlapping :: "interval list \<Rightarrow> bool" where
  "non_overlapping xs = sorted_wrt (\<lambda>a b. \<not> overlaps a b) xs"

text \<open>Every interval of the tier lies within the tier's bounds \<open>[minTime, M]\<close>.\<close>

definition within_bounds :: "intervaltier \<Rightarrow> rat \<Rightarrow> bool" where
  "within_bounds t M = list_all (\<lambda>i. minTime_t t \<le> minTime i \<and> maxTime i \<le> M) (intervals t)"

text \<open>The \<open>(minTime, maxTime, mark)\<close> triple of an interval.\<close>

definition triple :: "interval \<Rightarrow> rat \<times> rat \<times> string" where
  "triple i = (minTime i, maxTime i, mark i)"

text \<open>A time that rounding to \<open>n\<close> decimal digits leaves as it is.\<close>

definition at_precision :: "nat \<Rightarrow> rat \<Rightarrow> bool" where
  "at_precision n x \<longleftrightarrow> py_round x n = x"

text \<open>A string without line boundaries: \<open>print\<close> leaves it on one line of the file.\<close>

definition one_line :: "string \<Rightarrow> bool" where
  "one_line s \<longleftrightarrow> \<not> list_ex is_linebreak s"

text \<open>
  The elements of a tier as triples (a point as \<open>(time, time, mark)\<close>), and an annotation
  set as the list of its tiers' names and elements.
\<close>

fun tier_elements :: "tier \<Rightarrow> (rat \<times> rat \<times> string) list" where
  "tier_elements (IntervalTier t) = map triple (intervals t)"
| "tier_elements (PointTier t) = map (\<lambda>p. (time p, time p, mark_p p)) (points t)"

definition grid_view :: "textgrid \<Rightarrow> (pyval \<times> (rat \<times> rat \<times> string) list) list" where
  "grid_view g = map (\<lambda>t. (tier_name t, tier_elements t)) (tiers g)"

text \<open>
  The tiers that \<open>write\<close> followed by \<open>read\<close> is proved to reproduce.  \<open>M\<close> is the declared
  \<open>maxTime\<close> of the annotation set.  An interval has positive duration, ends by \<open>M\<close>, has its
  bounds at the reader's precision of 5 digits and a mark without line boundary.  An interval
  tier has a string without line boundary for its name, intervals sorted by start time,
  mutually non-overlapping and not before the tier's \<open>minTime\<close>, and its \<open>maxTime\<close>, when
  declared, is at most \<open>M\<close>.  A point tier has its points in strictly ascending order of
  time, none of them negative.
\<close>

definition interval_ok :: "rat \<Rightarrow> interval \<Rightarrow> bool" where
  "interval_ok M i \<longleftrightarrow> minTime i < maxTime i \<and> maxTime i \<le> M \<and> at_precision 5 (minTime i)
     \<and> at_precision 5 (maxTime i) \<and> one_line (mark i)"

fun valid_name :: "pyval \<Rightarrow> bool" where
  "valid_name (PStr s) = one_line s"
| "valid_name v = False"

fun tier_ok :: "rat \<Rightarrow> tier \<Rightarrow> bool" where
  "tier_ok M (IntervalTier t) =
     (valid_name (name t) \<and> at_precision 5 (minTime_t t)
      \<and> (case maxTime_t t of None \<Rightarrow> True | Some m \<Rightarrow> m \<le> M \<and> at_precision 5 m)
      \<and> sorted (map minTime (intervals t)) \<and> non_overlapping (intervals t)
      \<and> list_all (\<lambda>i. interval_ok M i \<and> minTime_t t \<le> minTime i) (intervals t))"
| "tier_ok M (PointTier t) =
     (valid_name (name_pt t) \<and> at_precision 5 (minTime_pt t)
      \<and> sorted_wrt (<) (map time (points t))
      \<and> list_all (\<lambda>p. 0 \<le> time p \<and> at_precision 5 (time p) \<and> one_line (mark_p p)) (points t))"

text \<open>
  The elements that \<open>write\<close> prints for a tier: the gap-filled intervals, or the points.
\<close>

fun written_elements :: "string \<Rightarrow> tier \<Rightarrow> (rat \<times> rat \<times> string) list" where
  "written_elements null (IntervalTier t) =
     (case fillInTheGaps t null of Inl e \<Rightarrow> [] | Inr output \<Rightarrow> map triple output)"
| "written_elements null (PointTier t) = tier_elements (PointTier t)"

text \<open>
  A tier without gaps: its intervals tile the span from its \<open>minTime\<close> to its \<open>maxTime\<close>, or
  to the end of its last interval when no \<open>maxTime\<close> is declared.
\<close>

fun no_gaps :: "tier \<Rightarrow> bool" where
  "no_gaps (IntervalTier t) =
     covers (minTime_t t) (intervals t)
       (case maxTime_t t of
          Some m \<Rightarrow> m
        | None \<Rightarrow> if intervals t = [] then minTime_t t else maxTime (last (intervals t)))"
| "no_gaps (PointTier t) = True"

section \<open>Properties of gap filling\<close>

fun ordered_from :: "rat \<Rightarrow> interval list \<Rightarrow> bool" where
  "ordered_from p [] = True"
| "ordered_from p (x # xs) = (p \<le> minTime x \<and> minTime x < maxTime x \<and> ordered_from (maxTime x) xs)"

fun end_of :: "rat \<Rightarrow> interval list \<Rightarrow> rat" where
  "end_of p [] = p"
| "end_of p (x # xs) = end_of (maxTime x) xs"

lemma covers_append: "covers a (xs @ ys) b \<longleftrightarrow> (\<exists>m. covers a xs m \<and> covers m ys b)"
  by (induction xs arbitrary: a) auto

lemma fill_loop_covers:
  "ordered_from p xs \<Longrightarrow> covers a out p \<Longrightarrow>
   \<exists>out'. fill_loop p xs null out = Inr (end_of p xs, out') \<and> covers a out' (end_of p xs)"
proof (induction xs arbitrary: p out)
  case Nil
  then show ?case by simp
next
  case (Cons x xs)
  have o: "ordered_from (maxTime x) xs" using Cons.prems by simp
  show ?case
  proof (cases "p < minTime x")
    case True
    let ?g = "\<lparr>minTime = p, maxTime = minTime x, mark = null, strict = True\<rparr>"
    have "covers a (out @ [?g, x]) (maxTime x)"
      using Cons.prems True by (auto simp: covers_append)
    then obtain out' where
      "fill_loop (maxTime x) xs null (out @ [?g, x]) = Inr (end_of (maxTime x) xs, out')"
      "covers a out' (end_of (maxTime x) xs)"
      using Cons.IH[OF o] by blast
    then show ?thesis using True by (simp add: Interval_init_def)
  next
    case False
    then have eq: "minTime x = p" using Cons.prems by simp
    have "covers a (out @ [x]) (maxTime x)"
      using Cons.prems eq by (auto simp: covers_append)
    then obtain out' where
      "fill_loop (maxTime x) xs null (out @ [x]) = Inr (end_of (maxTime x) xs, out')"
      "covers a out' (end_of (maxTime x) xs)"
      using Cons.IH[OF o] by blast
    then show ?thesis using False by simp
  qed
qed

lemma fill_loop_keeps:
  "fill_loop p xs null out = Inr (e, out') \<Longrightarrow> set out \<union> set xs \<subseteq> set out'"
proof (induction xs arbitrary: p out)
  case Nil
  then show ?case by simp
next
  case (Cons x xs)
  show ?case
  proof (cases "p < minTime x")
    case True
    then obtain g where "fill_loop (maxTime x) xs null (out @ [g, x]) = Inr (e, out')"
      using Cons.prems by (auto split: sum.splits)
    from Cons.IH[OF this] show ?thesis by auto
  next
    case False
    then have "fill_loop (maxTime x) xs null (out @ [x]) = Inr (e, out')"
      using Cons.prems by simp
    from Cons.IH[OF this] show ?thesis by auto
  qed
qed

lemma ordered_from_end_le:
  "ordered_from p xs \<Longrightarrow> \<forall>i\<in>set xs. maxTime i \<le> M \<Longrightarrow> p \<le> M \<Longrightarrow> end_of p xs \<le> M"
  by (induction xs arbitrary: p) auto

lemma sorted_disjoint_ordered:
  "positive_durations xs \<Longrightarrow> sorted (map minTime xs) \<Longrightarrow> non_overlapping xs \<Longrightarrow>
   \<forall>i\<in>set xs. p \<le> minTime i \<Longrightarrow> ordered_from p xs"
proof (induction xs arbitrary: p)
  case Nil
  then show ?case by simp
next
  case (Cons x xs)
  have nd: "minTime x < maxTime x" using Cons.prems(1) by (simp add: positive_durations_def)
  have "\<forall>y\<in>set xs. maxTime x \<le> minTime y"
  proof
    fix y assume y: "y \<in> set xs"
    then have no: "\<not> overlaps x y" using Cons.prems(3) by (simp add: non_overlapping_def)
    have "minTime x \<le> minTime y" using Cons.prems(2) y by auto
    moreover have "minTime y < maxTime y"
      using Cons.prems(1) y by (simp add: positive_durations_def list_all_iff)
    ultimately show "maxTime x \<le> minTime y" using no nd by (auto simp: overlaps_def)
  qed
  then have "ordered_from (maxTime x) xs"
    using Cons.IH[of "maxTime x"] Cons.prems(1,2,3)
    by (simp add: positive_durations_def non_overlapping_def)
  then show ?case using Cons.prems(4) nd by simp
qed

lemma covers_hd_last:
  "covers a out b \<Longrightarrow> out \<noteq> [] \<Longrightarrow> minTime (hd out) = a \<and> maxTime (last out) = b"
  by (induction out arbitrary: a) (auto split: if_splits)

lemma covers_abut:
  "covers a out b \<Longrightarrow> Suc k < length out \<Longrightarrow> maxTime (out ! k) = minTime (out ! Suc k)"
proof (induction out arbitrary: a k)
  case Nil
  then show ?case by simp
next
  case (Cons x xs)
  then obtain y ys where xs: "xs = y # ys" by (cases xs) auto
  show ?case
  proof (cases k)
    case 0
    then show ?thesis using Cons.prems xs by simp
  next
    case (Suc j)
    then show ?thesis using Cons.IH[of "maxTime x" j] Cons.prems by simp
  qed
qed

lemma covers_positive: "covers a out b \<Longrightarrow> positive_durations out"
  by (induction out arbitrary: a) (auto simp: positive_durations_def)

lemma covers_nonempty: "covers a out b \<Longrightarrow> a < b \<Longrightarrow> out \<noteq> []"
  by auto

lemma fillInTheGaps_covers:
  assumes "ordered_from (minTime_t t) (intervals t)" and "maxTime_t t = Some M"
    and "\<forall>i\<in>set (intervals t). maxTime i \<le> M" and "minTime_t t \<le> M"
  shows "\<exists>out. fillInTheGaps t null = Inr out \<and> covers (minTime_t t) out M
           \<and> set (intervals t) \<subseteq> set out"
proof -
  let ?e = "end_of (minTime_t t) (intervals t)"
  obtain out where o: "fill_loop (minTime_t t) (intervals t) null [] = Inr (?e, out)"
    "covers (minTime_t t) out ?e"
    using fill_loop_covers[OF assms(1), of "minTime_t t" "[]" null] by auto
  have k: "set (intervals t) \<subseteq> set out" using fill_loop_keeps[OF o(1)] by simp
  have le: "?e \<le> M" using ordered_from_end_le[OF assms(1,3,4)] .
  show ?thesis
  proof (cases "?e < M")
    case True
    then show ?thesis using o k assms(2)
      by (auto simp add: fillInTheGaps_def Interval_init_def covers_append)
  next
    case False
    then have "?e = M" using le by simp
    then show ?thesis using o k assms(2) by (simp add: fillInTheGaps_def)
  qed
qed

text \<open>
  Claim C7.  For an IntervalTier whose intervals have positive duration, are sorted by start
  time, do not overlap and lie within the tier's bounds \<open>[minTime, M]\<close>,
  \<open>_fillInTheGaps\<close> returns (it raises nothing) a sequence that tiles \<open>[minTime, M]\<close>:
  the first element starts at \<open>minTime\<close>, the last ends at \<open>M\<close>, consecutive elements
  abut, every element has positive duration, and every interval of the tier is kept.
  For the tier with bounds 0 and 1 holding only \<open>Interval(0.2, 0.5, "cat")\<close> the result is
  \<open>[(0, 0.2, ""), (0.2, 0.5, "cat"), (0.5, 1, "")]\<close>.
\<close>

theorem fillGaps_covers_tier:
  "(positive_durations (intervals t) \<and> sorted (map minTime (intervals t))
      \<and> non_overlapping (intervals t) \<and> maxTime_t t = Some M \<and> minTime_t t \<le> M
      \<and> within_bounds t M
    \<longrightarrow> (\<exists>out. fillInTheGaps t null = Inr out
          \<and> covers (minTime_t t) out M
          \<and> (minTime_t t < M \<longrightarrow>
               out \<noteq> [] \<and> minTime (hd out) = minTime_t t \<and> maxTime (last out) = M)
          \<and> (\<forall>k. Suc k < length out \<longrightarrow> maxTime (out ! k) = minTime (out ! Suc k))
          \<and> positive_durations out
          \<and> set (intervals t) \<subseteq> set out))
   \<and> map_sum id (map triple) (fillInTheGaps
        \<lparr>name = PStr ''word'', minTime_t = 0, maxTime_t = Some 1,
         intervals = [\<lparr>minTime = 2 / 10, maxTime = 5 / 10, mark = ''cat'', strict = True\<rparr>],
         strict_t = True\<rparr> '''')
      = Inr [(0, 2 / 10, ''''), (2 / 10, 5 / 10, ''cat''), (5 / 10, 1, '''')]"
proof (intro conjI impI)
  assume h: "positive_durations (intervals t) \<and> sorted (map minTime (intervals t))
      \<and> non_overlapping (intervals t) \<and> maxTime_t t = Some M \<and> minTime_t t \<le> M
      \<and> within_bounds t M"
  then have b: "\<forall>i\<in>set (intervals t). minTime_t t \<le> minTime i"
    and c: "\<forall>i\<in>set (intervals t). maxTime i \<le> M"
    by (simp_all add: within_bounds_def list_all_iff)
  have "ordered_from (minTime_t t) (intervals t)"
    using sorted_disjoint_ordered[OF _ _ _ b] h by blast
  then obtain out where o: "fillInTheGaps t null = Inr out" "covers (minTime_t t) out M"
    "set (intervals t) \<subseteq> set out"
    using fillInTheGaps_covers[of t M null] h c by blast
  show "\<exists>out. fillInTheGaps t null = Inr out
          \<and> covers (minTime_t t) out M
          \<and> (minTime_t t < M \<longrightarrow>
               out \<noteq> [] \<and> minTime (hd out) = minTime_t t \<and> maxTime (last out) = M)
          \<and> (\<forall>k. Suc k < length out \<longrightarrow> maxTime (out ! k) = minTime (out ! Suc k))
          \<and> positive_durations out
          \<and> set (intervals t) \<subseteq> set out"
    using o covers_hd_last[OF o(2)] covers_abut[OF o(2)] covers_positive[OF o(2)]
      covers_nonempty[OF o(2)]
    by blast
next
  show "map_sum id (map triple) (fillInTheGaps
        \<lparr>name = PStr ''word'', minTime_t = 0, maxTime_t = Some 1,
         intervals = [\<lparr>minTime = 2 / 10, maxTime = 5 / 10, mark = ''cat'', strict = True\<rparr>],
         strict_t = True\<rparr> '''')
      = Inr [(0, 2 / 10, ''''), (2 / 10, 5 / 10, ''cat''), (5 / 10, 1, '''')]"
    by (simp add: fillInTheGaps_def Interval_init_def triple_def)
qed

theorem fillGaps_covers_tier_witness:
  "(let t = \<lparr>name = PStr ''word'', minTime_t = 0, maxTime_t = Some 1,
         intervals = [\<lparr>minTime = 2 / 10, maxTime = 5 / 10, mark = ''cat'', strict = True\<rparr>,
                      \<lparr>minTime = 5 / 10, maxTime = 7 / 10, mark = ''sat'', strict = True\<rparr>],
         strict_t = True\<rparr>
    in positive_durations (intervals t) \<and> sorted (map minTime (intervals t))
      \<and> non_overlapping (intervals t) \<and> maxTime_t t = Some 1 \<and> minTime_t t \<le> 1
      \<and> within_bounds t 1
      \<and> (\<exists>out. fillInTheGaps t '''' = Inr out \<and> covers (minTime_t t) out 1
            \<and> length out = 4))"
  using fillGaps_covers_tier[of "\<lparr>name = PStr ''word'', minTime_t = 0, maxTime_t = Some 1,
         intervals = [\<lparr>minTime = 2 / 10, maxTime = 5 / 10, mark = ''cat'', strict = True\<rparr>,
                      \<lparr>minTime = 5 / 10, maxTime = 7 / 10, mark = ''sat'', strict = True\<rparr>],
         strict_t = True\<rparr>" 1 "''''"]
  by (simp add: positive_durations_def non_overlapping_def within_bounds_def overlaps_def
      fillInTheGaps_def Interval_init_def)

section \<open>Properties of sorted insertion\<close>

lemma Interval_lt_Inr:
  "Interval_lt y x = Inr (b, w) \<Longrightarrow> b = (minTime y < minTime x)"
  by (auto simp: Interval_lt_def split: if_splits)

text \<open>One unfolding of the loop, by the outcome of the comparison at the midpoint.\<close>

lemma bisect_left_loop_stop:
  "\<not> lo < hi \<Longrightarrow> bisect_left_loop lt a x lo hi = Inr (lo, [])"
  by (subst bisect_left_loop.simps) simp

lemma bisect_left_loop_raise:
  "lo < hi \<Longrightarrow> lt (a ! ((lo + hi) div 2)) x = Inl e \<Longrightarrow> bisect_left_loop lt a x lo hi = Inl e"
  by (subst bisect_left_loop.simps) simp

lemma bisect_left_loop_right:
  "lo < hi \<Longrightarrow> lt (a ! ((lo + hi) div 2)) x = Inr (True, w) \<Longrightarrow>
   bisect_left_loop lt a x lo hi =
     (case bisect_left_loop lt a x ((lo + hi) div 2 + 1) hi of
        Inl e \<Rightarrow> Inl e | Inr (i, ws) \<Rightarrow> Inr (i, w @ ws))"
  by (subst bisect_left_loop.simps) simp

lemma bisect_left_loop_left:
  "lo < hi \<Longrightarrow> lt (a ! ((lo + hi) div 2)) x = Inr (False, w) \<Longrightarrow>
   bisect_left_loop lt a x lo hi =
     (case bisect_left_loop lt a x lo ((lo + hi) div 2) of
        Inl e \<Rightarrow> Inl e | Inr (i, ws) \<Rightarrow> Inr (i, w @ ws))"
  by (subst bisect_left_loop.simps) simp

text \<open>
  A search that returns has compared by start time only, so on a list sorted by start
  time it returns the leftmost position whose start is not below the new one's.
\<close>

lemma bisect_left_loop_Interval_pos:
  "bisect_left_loop Interval_lt a x lo hi = Inr (i, ws) \<Longrightarrow> lo \<le> hi \<Longrightarrow> hi \<le> length a \<Longrightarrow>
   sorted (map minTime a) \<Longrightarrow>
   (\<forall>k<lo. minTime (a ! k) < minTime x) \<Longrightarrow>
   (\<forall>k. hi \<le> k \<and> k < length a \<longrightarrow> minTime x \<le> minTime (a ! k)) \<Longrightarrow>
   lo \<le> i \<and> i \<le> hi \<and> (\<forall>k<i. minTime (a ! k) < minTime x)
     \<and> (\<forall>k. i \<le> k \<and> k < length a \<longrightarrow> minTime x \<le> minTime (a ! k))"
proof (induction "hi - lo" arbitrary: lo hi i ws rule: less_induct)
  case less
  show ?case
  proof (cases "lo < hi")
    case False
    then show ?thesis using less.prems by (simp add: bisect_left_loop_stop)
  next
    case True
    let ?mid = "(lo + hi) div 2"
    have mid: "lo \<le> ?mid" "?mid < hi" "?mid < length a" using True less.prems(3) by auto
    obtain b w where c: "Interval_lt (a ! ?mid) x = Inr (b, w)"
      using less.prems(1) True by (cases "Interval_lt (a ! ?mid) x")
        (auto simp: bisect_left_loop_raise)
    have b: "b = (minTime (a ! ?mid) < minTime x)" using Interval_lt_Inr[OF c] .
    have srt: "\<And>j k. j \<le> k \<Longrightarrow> k < length a \<Longrightarrow> minTime (a ! j) \<le> minTime (a ! k)"
      using less.prems(4) by (simp add: sorted_iff_nth_mono)
    show ?thesis
    proof (cases b)
      case True
      with c less.prems(1) \<open>lo < hi\<close> obtain ws' where
        r: "bisect_left_loop Interval_lt a x (?mid + 1) hi = Inr (i, ws')"
        by (auto simp: bisect_left_loop_right split: sum.splits)
      have "\<forall>k<?mid + 1. minTime (a ! k) < minTime x"
      proof (intro allI impI)
        fix k assume "k < ?mid + 1"
        then have "minTime (a ! k) \<le> minTime (a ! ?mid)" using srt[of k ?mid] mid by simp
        then show "minTime (a ! k) < minTime x" using True b by simp
      qed
      moreover have "hi - (?mid + 1) < hi - lo" "?mid + 1 \<le> hi" using mid by auto
      ultimately have "?mid + 1 \<le> i \<and> i \<le> hi \<and> (\<forall>k<i. minTime (a ! k) < minTime x)
          \<and> (\<forall>k. i \<le> k \<and> k < length a \<longrightarrow> minTime x \<le> minTime (a ! k))"
        using less.hyps[OF _ r _ less.prems(3,4) _ less.prems(6)] by blast
      then show ?thesis using mid by auto
    next
      case False
      with c less.prems(1) \<open>lo < hi\<close> obtain ws' where
        r: "bisect_left_loop Interval_lt a x lo ?mid = Inr (i, ws')"
        by (auto simp: bisect_left_loop_left split: sum.splits)
      have "\<forall>k. ?mid \<le> k \<and> k < length a \<longrightarrow> minTime x \<le> minTime (a ! k)"
      proof (intro allI impI)
        fix k assume "?mid \<le> k \<and> k < length a"
        then have "minTime (a ! ?mid) \<le> minTime (a ! k)" using srt[of ?mid k] by simp
        then show "minTime x \<le> minTime (a ! k)" using False b by simp
      qed
      moreover have "?mid - lo < hi - lo" "?mid \<le> length a" using mid by auto
      ultimately have "lo \<le> i \<and> i \<le> ?mid \<and> (\<forall>k<i. minTime (a ! k) < minTime x)
          \<and> (\<forall>k. i \<le> k \<and> k < length a \<longrightarrow> minTime x \<le> minTime (a ! k))"
        using less.hyps[OF _ r mid(1) _ less.prems(4,5)] by blast
      then show ?thesis using mid by auto
    qed
  qed
qed

lemma sorted_list_insert:
  assumes "sorted (map f a)" "i \<le> length a"
    "\<forall>k<i. f (a ! k) \<le> f x" "\<forall>k. i \<le> k \<and> k < length a \<longrightarrow> f x \<le> f (a ! k)"
  shows "sorted (map f (list_insert a i x))"
proof -
  have t: "\<forall>y\<in>set (take i a). f y \<le> f x"
    using assms(2,3) by (auto simp: in_set_conv_nth)
  have d: "\<forall>y\<in>set (drop i a). f x \<le> f y"
    using assms(4) by (auto simp: in_set_conv_nth)
  have "sorted (map f (take i a))" "sorted (map f (drop i a))"
    using assms(1) by (simp_all add: sorted_wrt_take sorted_wrt_drop sorted_map)
  moreover have "\<forall>y\<in>set (take i a). \<forall>z\<in>set (drop i a). f y \<le> f z"
    using t d by (meson order_trans)
  ultimately show ?thesis
    using t d by (auto simp: list_insert_def sorted_append)
qed

lemma addInterval_sorted:
  assumes "sorted (map minTime (intervals t))" "addInterval t x = Inr (t', ws)"
  shows "sorted (map minTime (intervals t'))"
proof -
  let ?a = "intervals t"
  from assms(2) obtain k where
    k: "bisect_left_loop Interval_lt ?a x 0 (length ?a) = Inr (k, ws)"
    and t': "intervals t' = list_insert ?a k (x\<lparr>strict := strict_t t\<rparr>)"
    by (auto simp: addInterval_def bisect_left_def split: if_splits sum.splits)
  have p: "k \<le> length ?a \<and> (\<forall>j<k. minTime (?a ! j) < minTime x)
     \<and> (\<forall>j. k \<le> j \<and> j < length ?a \<longrightarrow> minTime x \<le> minTime (?a ! j))"
    using bisect_left_loop_Interval_pos[OF k _ _ assms(1)] by simp
  show ?thesis unfolding t'
    by (rule sorted_list_insert[OF assms(1)]) (use p in \<open>auto simp: less_imp_le\<close>)
qed

lemma bisect_left_loop_raise_form:
  "bisect_left_loop Interval_lt a x lo hi = Inl e \<Longrightarrow>
   \<exists>j. lo \<le> j \<and> j < hi \<and> strict (a ! j) \<and> overlaps (a ! j) x \<and> e = ValueError_overlap (a ! j) x"
proof (induction "hi - lo" arbitrary: lo hi rule: less_induct)
  case less
  let ?mid = "(lo + hi) div 2"
  have lh: "lo < hi" using less.prems by (cases "lo < hi") (auto simp: bisect_left_loop_stop)
  then have mid: "lo \<le> ?mid" "?mid < hi" by auto
  show ?case
  proof (cases "Interval_lt (a ! ?mid) x")
    case (Inl e')
    then have "e = e'" using less.prems lh by (simp add: bisect_left_loop_raise)
    moreover have "strict (a ! ?mid) \<and> overlaps (a ! ?mid) x \<and> e' = ValueError_overlap (a ! ?mid) x"
      using Inl by (auto simp: Interval_lt_def split: if_splits)
    ultimately show ?thesis using mid by blast
  next
    case (Inr bw)
    obtain b w where bw: "bw = (b, w)" by (cases bw)
    show ?thesis
    proof (cases b)
      case True
      then have "bisect_left_loop Interval_lt a x (?mid + 1) hi = Inl e"
        using less.prems lh Inr bw by (auto simp: bisect_left_loop_right split: sum.splits)
      moreover have "hi - (?mid + 1) < hi - lo" using mid by auto
      ultimately obtain j where "?mid + 1 \<le> j \<and> j < hi \<and> strict (a ! j) \<and> overlaps (a ! j) x
          \<and> e = ValueError_overlap (a ! j) x"
        using less.hyps by blast
      then show ?thesis using mid by (intro exI[of _ j]) auto
    next
      case False
      then have "bisect_left_loop Interval_lt a x lo ?mid = Inl e"
        using less.prems lh Inr bw by (auto simp: bisect_left_loop_left split: sum.splits)
      moreover have "?mid - lo < hi - lo" using mid by auto
      ultimately obtain j where "lo \<le> j \<and> j < ?mid \<and> strict (a ! j) \<and> overlaps (a ! j) x
          \<and> e = ValueError_overlap (a ! j) x"
        using less.hyps by blast
      then show ?thesis using mid by (intro exI[of _ j]) auto
    qed
  qed
qed

lemma bisect_left_loop_no_overlap:
  "\<forall>k<length a. \<not> overlaps (a ! k) x \<Longrightarrow> hi \<le> length a \<Longrightarrow>
   \<exists>i. bisect_left_loop Interval_lt a x lo hi = Inr (i, [])"
proof (induction "hi - lo" arbitrary: lo hi rule: less_induct)
  case less
  let ?mid = "(lo + hi) div 2"
  show ?case
  proof (cases "lo < hi")
    case False
    then show ?thesis by (simp add: bisect_left_loop_stop)
  next
    case True
    then have mid: "lo \<le> ?mid" "?mid < hi" "?mid < length a" using less.prems(2) by auto
    have c: "Interval_lt (a ! ?mid) x = Inr (minTime (a ! ?mid) < minTime x, [])"
      using less.prems(1) mid by (simp add: Interval_lt_def)
    show ?thesis
    proof (cases "minTime (a ! ?mid) < minTime x")
      case t: True
      have "hi - (?mid + 1) < hi - lo" using mid by auto
      then obtain i where "bisect_left_loop Interval_lt a x (?mid + 1) hi = Inr (i, [])"
        using less.hyps less.prems by blast
      then show ?thesis using c t True by (simp add: bisect_left_loop_right)
    next
      case f: False
      have "?mid - lo < hi - lo" "?mid \<le> length a" using mid by auto
      then obtain i where "bisect_left_loop Interval_lt a x lo ?mid = Inr (i, [])"
        using less.hyps less.prems(1) by blast
      then show ?thesis using c f True by (simp add: bisect_left_loop_left)
    qed
  qed
qed

lemma bisect_left_loop_nonstrict:
  "\<forall>k<length a. \<not> strict (a ! k) \<Longrightarrow> hi \<le> length a \<Longrightarrow>
   \<exists>i ws. bisect_left_loop Interval_lt a x lo hi = Inr (i, ws)"
proof (cases "bisect_left_loop Interval_lt a x lo hi")
  case (Inl e)
  assume "\<forall>k<length a. \<not> strict (a ! k)" "hi \<le> length a"
  then show ?thesis using bisect_left_loop_raise_form[OF Inl] by auto
next
  case (Inr r)
  then show ?thesis by (cases r) auto
qed

text \<open>Sorted by start, positive durations and no overlap: each interval ends before the next starts.\<close>

lemma chain_nth:
  assumes "positive_durations a" "sorted (map minTime a)" "non_overlapping a"
    "j < k" "k < length a"
  shows "maxTime (a ! j) \<le> minTime (a ! k)"
proof -
  have "\<not> overlaps (a ! j) (a ! k)"
    using assms(3,4,5) by (simp add: non_overlapping_def sorted_wrt_iff_nth_less)
  moreover have "minTime (a ! j) \<le> minTime (a ! k)"
    using assms(2,4,5) by (simp add: sorted_iff_nth_mono)
  moreover have "minTime (a ! k) < maxTime (a ! k)"
    using assms(1,5) by (simp add: positive_durations_def list_all_length)
  ultimately show ?thesis by (auto simp: overlaps_def)
qed

lemma bisect_left_loop_hits_overlap:
  assumes inv: "positive_durations a" "sorted (map minTime a)" "non_overlapping a"
  shows "hi \<le> length a \<Longrightarrow> lo \<le> k \<Longrightarrow> k < hi \<Longrightarrow> overlaps (a ! k) x \<Longrightarrow>
    (\<exists>j<length a. strict (a ! j) \<and> overlaps (a ! j) x
        \<and> bisect_left_loop Interval_lt a x lo hi = Inl (ValueError_overlap (a ! j) x))
    \<or> (\<exists>i ws. bisect_left_loop Interval_lt a x lo hi = Inr (i, ws) \<and> ws \<noteq> []
          \<and> (\<exists>j<length a. \<not> strict (a ! j)))"
proof (induction "hi - lo" arbitrary: lo hi rule: less_induct)
  case less
  let ?mid = "(lo + hi) div 2"
  let ?R = "\<lambda>r. (\<exists>j<length a. strict (a ! j) \<and> overlaps (a ! j) x
        \<and> r = Inl (ValueError_overlap (a ! j) x))
      \<or> (\<exists>i ws. r = Inr (i, ws) \<and> ws \<noteq> [] \<and> (\<exists>j<length a. \<not> strict (a ! j)))"
  have lh: "lo < hi" using less.prems by simp
  then have mid: "lo \<le> ?mid" "?mid < hi" "?mid < length a" using less.prems(1) by auto
  have pos: "minTime (a ! ?mid) < maxTime (a ! ?mid)"
    using inv(1) mid by (simp add: positive_durations_def list_all_length)
  have form: "\<And>lo' hi' e. hi' \<le> length a \<Longrightarrow> bisect_left_loop Interval_lt a x lo' hi' = Inl e \<Longrightarrow>
      \<exists>j<length a. strict (a ! j) \<and> overlaps (a ! j) x \<and> e = ValueError_overlap (a ! j) x"
  proof -
    fix lo' hi' e assume h: "hi' \<le> length a" "bisect_left_loop Interval_lt a x lo' hi' = Inl e"
    from bisect_left_loop_raise_form[OF h(2)] obtain j where
      "j < hi'" "strict (a ! j) \<and> overlaps (a ! j) x \<and> e = ValueError_overlap (a ! j) x" by blast
    then show "\<exists>j<length a. strict (a ! j) \<and> overlaps (a ! j) x \<and> e = ValueError_overlap (a ! j) x"
      using h(1) by (intro exI[of _ j]) auto
  qed
  show ?case
  proof (cases "overlaps (a ! ?mid) x")
    case True
    show ?thesis
    proof (cases "strict (a ! ?mid)")
      case s: True
      then have "bisect_left_loop Interval_lt a x lo hi = Inl (ValueError_overlap (a ! ?mid) x)"
        using True lh by (simp add: bisect_left_loop_raise Interval_lt_def)
      then show ?thesis using True s mid by blast
    next
      case ns: False
      let ?w = "[Overlap_warning (mark (a ! ?mid)) (minTime (a ! ?mid)) (maxTime (a ! ?mid))]"
      have c: "Interval_lt (a ! ?mid) x = Inr (minTime (a ! ?mid) < minTime x, ?w)"
        using True ns by (simp add: Interval_lt_def)
      show ?thesis
      proof (cases "minTime (a ! ?mid) < minTime x")
        case t: True
        have e: "bisect_left_loop Interval_lt a x lo hi =
          (case bisect_left_loop Interval_lt a x (?mid + 1) hi of
             Inl e \<Rightarrow> Inl e | Inr (i, ws) \<Rightarrow> Inr (i, ?w @ ws))"
          using c t lh by (simp add: bisect_left_loop_right)
        show ?thesis
        proof (cases "bisect_left_loop Interval_lt a x (?mid + 1) hi")
          case (Inl e')
          then show ?thesis using e form[OF less.prems(1) Inl] by auto
        next
          case (Inr r)
          then show ?thesis using e ns mid(3) by (cases r) auto
        qed
      next
        case f: False
        have e: "bisect_left_loop Interval_lt a x lo hi =
          (case bisect_left_loop Interval_lt a x lo ?mid of
             Inl e \<Rightarrow> Inl e | Inr (i, ws) \<Rightarrow> Inr (i, ?w @ ws))"
          using c f lh by (simp add: bisect_left_loop_left)
        have ml: "?mid \<le> length a" using mid by simp
        show ?thesis
        proof (cases "bisect_left_loop Interval_lt a x lo ?mid")
          case (Inl e')
          then show ?thesis using e form[OF ml Inl] by auto
        next
          case (Inr r)
          then show ?thesis using e ns mid(3) by (cases r) auto
        qed
      qed
    qed
  next
    case False
    then have c: "Interval_lt (a ! ?mid) x = Inr (minTime (a ! ?mid) < minTime x, [])"
      by (simp add: Interval_lt_def)
    have kne: "k \<noteq> ?mid" using False less.prems(4) by auto
    show ?thesis
    proof (cases "minTime (a ! ?mid) < minTime x")
      case t: True
      have "?mid < k"
      proof (rule ccontr)
        assume "\<not> ?mid < k"
        then have "k < ?mid" using kne by simp
        then have "maxTime (a ! k) \<le> minTime (a ! ?mid)" using chain_nth[OF inv _ mid(3)] by simp
        then show False using less.prems(4) t by (auto simp: overlaps_def)
      qed
      then have "?mid + 1 \<le> k" "hi - (?mid + 1) < hi - lo" using mid by auto
      then have "?R (bisect_left_loop Interval_lt a x (?mid + 1) hi)"
        using less.hyps[of hi "?mid + 1"] less.prems by blast
      moreover have "bisect_left_loop Interval_lt a x lo hi =
          (case bisect_left_loop Interval_lt a x (?mid + 1) hi of
             Inl e \<Rightarrow> Inl e | Inr (i, ws) \<Rightarrow> Inr (i, [] @ ws))"
        using c t lh by (simp add: bisect_left_loop_right)
      ultimately show ?thesis by auto
    next
      case f: False
      have "k < ?mid"
      proof (rule ccontr)
        assume "\<not> k < ?mid"
        then have "?mid < k" using kne by simp
        moreover have "k < length a" using less.prems by simp
        ultimately have "maxTime (a ! ?mid) \<le> minTime (a ! k)" using chain_nth[OF inv] by simp
        then show False using less.prems(4) f pos False by (auto simp: overlaps_def)
      qed
      moreover have "?mid - lo < hi - lo" "?mid \<le> length a" using mid by auto
      ultimately have "?R (bisect_left_loop Interval_lt a x lo ?mid)"
        using less.hyps[of ?mid lo] less.prems by blast
      moreover have "bisect_left_loop Interval_lt a x lo hi =
          (case bisect_left_loop Interval_lt a x lo ?mid of
             Inl e \<Rightarrow> Inl e | Inr (i, ws) \<Rightarrow> Inr (i, [] @ ws))"
        using c f lh by (simp add: bisect_left_loop_left)
      ultimately show ?thesis by auto
    qed
  qed
qed

lemma addInterval_in_bounds:
  "\<not> minTime x < minTime_t t \<Longrightarrow> \<not> too_late (maxTime_t t) (maxTime x) \<Longrightarrow>
   addInterval t x =
     (case bisect_left Interval_lt (intervals t) x of
        Inl e \<Rightarrow> Inl e
      | Inr (k, ws) \<Rightarrow>
          if k \<noteq> length (intervals t) \<and> Interval_eq (intervals t ! k) x
          then Inl (ValueError_duplicate (intervals t ! k))
          else Inr (t\<lparr>intervals := list_insert (intervals t) k (x\<lparr>strict := strict_t t\<rparr>)\<rparr>, ws))"
  by (simp add: addInterval_def)

lemma bisect_left_Interval_sorted_insert:
  assumes "sorted (map minTime a)" "bisect_left Interval_lt a x = Inr (k, ws)" "minTime x' = minTime x"
  shows "k \<le> length a \<and> sorted (map minTime (list_insert a k x'))"
proof -
  have k: "bisect_left_loop Interval_lt a x 0 (length a) = Inr (k, ws)"
    using assms(2) by (simp add: bisect_left_def)
  have p: "k \<le> length a \<and> (\<forall>j<k. minTime (a ! j) < minTime x)
     \<and> (\<forall>j. k \<le> j \<and> j < length a \<longrightarrow> minTime x \<le> minTime (a ! j))"
    using bisect_left_loop_Interval_pos[OF k _ _ assms(1)] by simp
  then have "sorted (map minTime (list_insert a k x'))"
    by (intro sorted_list_insert[OF assms(1)]) (auto simp: assms(3) less_imp_le)
  then show ?thesis using p by simp
qed

lemma bisect_left_loop_range:
  "bisect_left_loop lt a x lo hi = Inr (i, ws) \<Longrightarrow> lo \<le> hi \<Longrightarrow> lo \<le> i \<and> i \<le> hi"
proof (induction "hi - lo" arbitrary: lo hi i ws rule: less_induct)
  case less
  show ?case
  proof (cases "lo < hi")
    case False
    then show ?thesis using less.prems by (simp add: bisect_left_loop_stop)
  next
    case True
    let ?mid = "(lo + hi) div 2"
    have mid: "lo \<le> ?mid" "?mid < hi" using True by auto
    obtain b w where c: "lt (a ! ?mid) x = Inr (b, w)"
      using less.prems(1) True by (cases "lt (a ! ?mid) x") (auto simp: bisect_left_loop_raise)
    show ?thesis
    proof (cases b)
      case True
      with c less.prems(1) \<open>lo < hi\<close> obtain ws' where
        r: "bisect_left_loop lt a x (?mid + 1) hi = Inr (i, ws')"
        by (auto simp: bisect_left_loop_right split: sum.splits)
      have "hi - (?mid + 1) < hi - lo" "?mid + 1 \<le> hi" using mid by auto
      then have "?mid + 1 \<le> i \<and> i \<le> hi" using less.hyps[OF _ r] by blast
      then show ?thesis using mid by auto
    next
      case False
      with c less.prems(1) \<open>lo < hi\<close> obtain ws' where
        r: "bisect_left_loop lt a x lo ?mid = Inr (i, ws')"
        by (auto simp: bisect_left_loop_left split: sum.splits)
      have "?mid - lo < hi - lo" using mid by auto
      then have "lo \<le> i \<and> i \<le> ?mid" using less.hyps[OF _ r mid(1)] by blast
      then show ?thesis using mid by auto
    qed
  qed
qed

text \<open>Every warning of a search is the warning of an element that overlaps the new interval.\<close>

lemma bisect_left_loop_warnings:
  "bisect_left_loop Interval_lt a x lo hi = Inr (i, ws) \<Longrightarrow> hi \<le> length a \<Longrightarrow>
   \<forall>w\<in>set ws. \<exists>y\<in>set a. overlaps y x \<and> w = Overlap_warning (mark y) (minTime y) (maxTime y)"
proof (induction "hi - lo" arbitrary: lo hi i ws rule: less_induct)
  case less
  show ?case
  proof (cases "lo < hi")
    case False
    then show ?thesis using less.prems by (simp add: bisect_left_loop_stop)
  next
    case True
    let ?mid = "(lo + hi) div 2"
    have mid: "lo \<le> ?mid" "?mid < hi" "?mid < length a" using True less.prems(2) by auto
    obtain b w where c: "Interval_lt (a ! ?mid) x = Inr (b, w)"
      using less.prems(1) True by (cases "Interval_lt (a ! ?mid) x") (auto simp: bisect_left_loop_raise)
    have w: "\<forall>v\<in>set w. \<exists>y\<in>set a. overlaps y x \<and> v = Overlap_warning (mark y) (minTime y) (maxTime y)"
      using c mid(3) by (auto simp: Interval_lt_def split: if_splits)
    show ?thesis
    proof (cases b)
      case True
      with c less.prems(1) \<open>lo < hi\<close> obtain ws' where
        r: "bisect_left_loop Interval_lt a x (?mid + 1) hi = Inr (i, ws')" and e: "ws = w @ ws'"
        by (auto simp: bisect_left_loop_right split: sum.splits)
      have "hi - (?mid + 1) < hi - lo" using mid by auto
      then show ?thesis using less.hyps[OF _ r less.prems(2)] w e by auto
    next
      case False
      with c less.prems(1) \<open>lo < hi\<close> obtain ws' where
        r: "bisect_left_loop Interval_lt a x lo ?mid = Inr (i, ws')" and e: "ws = w @ ws'"
        by (auto simp: bisect_left_loop_left split: sum.splits)
      have "?mid - lo < hi - lo" "?mid \<le> length a" using mid by auto
      then show ?thesis using less.hyps[OF _ r] w e by auto
    qed
  qed
qed

text \<open>
  Claim C3, amended.  The new interval lies within the tier's bounds throughout.

  Strict tier.  If the tier and its elements are strict, the elements have positive duration,
  are sorted by start time and do not overlap each other (what \<open>add\<close> leaves in a strict
  tier), and the new interval overlaps one of them, \<open>addInterval\<close> raises
  \<open>ValueError(self, other)\<close>, where \<open>self\<close> is an element that the new interval overlaps
  and \<open>other\<close> is the new interval.

  Non-strict tier, whatever its elements are.  The search raises nothing and returns a
  position \<open>k\<close>; each warning it logs is the warning of an element that overlaps the new
  interval; \<open>addInterval\<close> inserts at \<open>k\<close> unless the element there has the same
  \<open>minTime\<close> and \<open>maxTime\<close>, in which case it raises the duplicate \<open>ValueError\<close>.  If
  the elements were sorted by start time, they still are after the insertion.  If moreover
  they have positive duration and do not overlap each other, and the new interval overlaps
  one of them, at least one warning is logged.

  Without that last condition an overlap can go unlogged: in the non-strict tier
  \<open>[(0, 10), (1, 2), (3, 4)]\<close> the interval \<open>(5, 6)\<close> overlaps \<open>(0, 10)\<close>, the search
  compares it with \<open>(1, 2)\<close> and \<open>(3, 4)\<close> only, and it is appended with no warning.
\<close>

theorem overlap_insertion:
  "(positive_durations (intervals t) \<and> sorted (map minTime (intervals t))
     \<and> non_overlapping (intervals t)
     \<and> \<not> minTime x < minTime_t t \<and> \<not> too_late (maxTime_t t) (maxTime x)
     \<and> (\<exists>y\<in>set (intervals t). overlaps y x)
     \<and> strict_t t \<and> list_all strict (intervals t)
    \<longrightarrow> (\<exists>y\<in>set (intervals t). overlaps y x \<and> addInterval t x = Inl (ValueError_overlap y x)))
   \<and> (\<not> minTime x < minTime_t t \<and> \<not> too_late (maxTime_t t) (maxTime x)
     \<and> \<not> strict_t t \<and> list_all (\<lambda>i. \<not> strict i) (intervals t)
    \<longrightarrow> (\<exists>k ws. bisect_left Interval_lt (intervals t) x = Inr (k, ws)
           \<and> k \<le> length (intervals t)
           \<and> (\<forall>w\<in>set ws. \<exists>y\<in>set (intervals t). overlaps y x
                  \<and> w = Overlap_warning (mark y) (minTime y) (maxTime y))
           \<and> addInterval t x =
               (if k < length (intervals t) \<and> Interval_eq (intervals t ! k) x
                then Inl (ValueError_duplicate (intervals t ! k))
                else Inr (t\<lparr>intervals := list_insert (intervals t) k (x\<lparr>strict := False\<rparr>)\<rparr>, ws))
           \<and> (sorted (map minTime (intervals t))
                \<longrightarrow> sorted (map minTime (list_insert (intervals t) k (x\<lparr>strict := False\<rparr>))))
           \<and> (positive_durations (intervals t) \<and> sorted (map minTime (intervals t))
                \<and> non_overlapping (intervals t) \<and> (\<exists>y\<in>set (intervals t). overlaps y x)
                \<longrightarrow> ws \<noteq> [])))
   \<and> (let a = \<lparr>minTime = 0, maxTime = 10, mark = ''a'', strict = False\<rparr>;
           b = \<lparr>minTime = 1, maxTime = 2, mark = ''b'', strict = False\<rparr>;
           c = \<lparr>minTime = 3, maxTime = 4, mark = ''c'', strict = False\<rparr>;
           y = \<lparr>minTime = 5, maxTime = 6, mark = ''y'', strict = True\<rparr>;
           u = \<lparr>name = PNone, minTime_t = 0, maxTime_t = None, intervals = [a, b, c],
                strict_t = False\<rparr>
       in overlaps a y
          \<and> addInterval u y = Inr (u\<lparr>intervals := [a, b, c, y\<lparr>strict := False\<rparr>]\<rparr>, []))"
proof (intro conjI impI)
  let ?a = "intervals t"
  assume h: "positive_durations ?a \<and> sorted (map minTime ?a) \<and> non_overlapping ?a
     \<and> \<not> minTime x < minTime_t t \<and> \<not> too_late (maxTime_t t) (maxTime x)
     \<and> (\<exists>y\<in>set ?a. overlaps y x) \<and> strict_t t \<and> list_all strict ?a"
  then obtain k where k: "k < length ?a" "overlaps (?a ! k) x"
    by (auto simp: in_set_conv_nth)
  have hit: "(\<exists>j<length ?a. strict (?a ! j) \<and> overlaps (?a ! j) x
        \<and> bisect_left Interval_lt ?a x = Inl (ValueError_overlap (?a ! j) x))
    \<or> (\<exists>i ws. bisect_left Interval_lt ?a x = Inr (i, ws) \<and> ws \<noteq> []
          \<and> (\<exists>j<length ?a. \<not> strict (?a ! j)))"
    unfolding bisect_left_def
    using bisect_left_loop_hits_overlap[of ?a "length ?a" 0 k x] h k by blast
  have "\<forall>j<length ?a. strict (?a ! j)" using h by (simp add: list_all_length)
  with hit obtain j where "j < length ?a" "overlaps (?a ! j) x"
    "bisect_left Interval_lt ?a x = Inl (ValueError_overlap (?a ! j) x)" by blast
  then show "\<exists>y\<in>set ?a. overlaps y x \<and> addInterval t x = Inl (ValueError_overlap y x)"
    using addInterval_in_bounds[of x t] h by (intro bexI[of _ "?a ! j"]) auto
next
  let ?a = "intervals t"
  assume h: "\<not> minTime x < minTime_t t \<and> \<not> too_late (maxTime_t t) (maxTime x)
     \<and> \<not> strict_t t \<and> list_all (\<lambda>i. \<not> strict i) ?a"
  then have ns: "\<forall>j<length ?a. \<not> strict (?a ! j)" by (simp add: list_all_length)
  obtain i ws where r: "bisect_left Interval_lt ?a x = Inr (i, ws)"
    unfolding bisect_left_def using bisect_left_loop_nonstrict[OF ns, of "length ?a" x 0] by auto
  then have l: "bisect_left_loop Interval_lt ?a x 0 (length ?a) = Inr (i, ws)"
    by (simp add: bisect_left_def)
  have rng: "i \<le> length ?a" using bisect_left_loop_range[OF l] by simp
  have wrn: "\<forall>w\<in>set ws. \<exists>y\<in>set ?a. overlaps y x
                  \<and> w = Overlap_warning (mark y) (minTime y) (maxTime y)"
    using bisect_left_loop_warnings[OF l] by simp
  have add: "addInterval t x =
               (if i < length ?a \<and> Interval_eq (?a ! i) x
                then Inl (ValueError_duplicate (?a ! i))
                else Inr (t\<lparr>intervals := list_insert ?a i (x\<lparr>strict := False\<rparr>)\<rparr>, ws))"
    using addInterval_in_bounds[of x t] h r rng by auto
  have srt: "sorted (map minTime ?a)
       \<longrightarrow> sorted (map minTime (list_insert ?a i (x\<lparr>strict := False\<rparr>)))"
    using bisect_left_Interval_sorted_insert[OF _ r, of "x\<lparr>strict := False\<rparr>"] by simp
  have hit: "positive_durations ?a \<and> sorted (map minTime ?a) \<and> non_overlapping ?a
       \<and> (\<exists>y\<in>set ?a. overlaps y x) \<longrightarrow> ws \<noteq> []"
  proof
    assume inv: "positive_durations ?a \<and> sorted (map minTime ?a) \<and> non_overlapping ?a
       \<and> (\<exists>y\<in>set ?a. overlaps y x)"
    then obtain k where k: "k < length ?a" "overlaps (?a ! k) x"
      by (auto simp: in_set_conv_nth)
    show "ws \<noteq> []"
      using bisect_left_loop_hits_overlap[of ?a "length ?a" 0 k x] inv k l by auto
  qed
  show "\<exists>k ws. bisect_left Interval_lt ?a x = Inr (k, ws)
           \<and> k \<le> length ?a
           \<and> (\<forall>w\<in>set ws. \<exists>y\<in>set ?a. overlaps y x
                  \<and> w = Overlap_warning (mark y) (minTime y) (maxTime y))
           \<and> addInterval t x =
               (if k < length ?a \<and> Interval_eq (?a ! k) x
                then Inl (ValueError_duplicate (?a ! k))
                else Inr (t\<lparr>intervals := list_insert ?a k (x\<lparr>strict := False\<rparr>)\<rparr>, ws))
           \<and> (sorted (map minTime ?a)
                \<longrightarrow> sorted (map minTime (list_insert ?a k (x\<lparr>strict := False\<rparr>))))
           \<and> (positive_durations ?a \<and> sorted (map minTime ?a)
                \<and> non_overlapping ?a \<and> (\<exists>y\<in>set ?a. overlaps y x)
                \<longrightarrow> ws \<noteq> [])"
    using r rng wrn add srt hit by blast
next
  show "(let a = \<lparr>minTime = 0, maxTime = 10, mark = ''a'', strict = False\<rparr>;
           b = \<lparr>minTime = 1, maxTime = 2, mark = ''b'', strict = False\<rparr>;
           c = \<lparr>minTime = 3, maxTime = 4, mark = ''c'', strict = False\<rparr>;
           y = \<lparr>minTime = 5, maxTime = 6, mark = ''y'', strict = True\<rparr>;
           u = \<lparr>name = PNone, minTime_t = 0, maxTime_t = None, intervals = [a, b, c],
                strict_t = False\<rparr>
       in overlaps a y
          \<and> addInterval u y = Inr (u\<lparr>intervals := [a, b, c, y\<lparr>strict := False\<rparr>]\<rparr>, []))"
    by (simp add: Let_def overlaps_def too_late_def addInterval_def bisect_left_def
        bisect_left_loop.simps Interval_lt_def Interval_eq_def list_insert_def)
qed

text \<open>
  The theorem at a strict tier \<open>[(0, 1, a), (2, 3, b)]\<close> and its non-strict copy, with the
  new interval \<open>(0.5, 1.5, x)\<close>.
\<close>

theorem overlap_insertion_witness:
  "(let a = \<lparr>minTime = 0, maxTime = 1, mark = ''a'', strict = True\<rparr>;
        b = \<lparr>minTime = 2, maxTime = 3, mark = ''b'', strict = True\<rparr>;
        x = \<lparr>minTime = 1 / 2, maxTime = 3 / 2, mark = ''x'', strict = True\<rparr>;
        t = \<lparr>name = PNone, minTime_t = 0, maxTime_t = None, intervals = [a, b], strict_t = True\<rparr>;
        a' = a\<lparr>strict := False\<rparr>; b' = b\<lparr>strict := False\<rparr>;
        t' = t\<lparr>intervals := [a', b'], strict_t := False\<rparr>
    in positive_durations [a, b] \<and> sorted (map minTime [a, b]) \<and> non_overlapping [a, b]
       \<and> \<not> minTime x < minTime_t t \<and> \<not> too_late (maxTime_t t) (maxTime x)
       \<and> overlaps a x \<and> strict_t t \<and> list_all strict (intervals t)
       \<and> addInterval t x = Inl (ValueError_overlap a x)
       \<and> \<not> strict_t t' \<and> list_all (\<lambda>i. \<not> strict i) (intervals t')
       \<and> addInterval t' x =
           Inr (t'\<lparr>intervals := [a', x\<lparr>strict := False\<rparr>, b']\<rparr>, [Overlap_warning ''a'' 0 1]))"
  using overlap_insertion[of
      "\<lparr>name = PNone, minTime_t = 0, maxTime_t = None,
        intervals = [\<lparr>minTime = 0, maxTime = 1, mark = ''a'', strict = True\<rparr>,
                     \<lparr>minTime = 2, maxTime = 3, mark = ''b'', strict = True\<rparr>], strict_t = True\<rparr>"
      "\<lparr>minTime = 1 / 2, maxTime = 3 / 2, mark = ''x'', strict = True\<rparr>"]
    overlap_insertion[of
      "\<lparr>name = PNone, minTime_t = 0, maxTime_t = None,
        intervals = [\<lparr>minTime = 0, maxTime = 1, mark = ''a'', strict = False\<rparr>,
                     \<lparr>minTime = 2, maxTime = 3, mark = ''b'', strict = False\<rparr>], strict_t = False\<rparr>"
      "\<lparr>minTime = 1 / 2, maxTime = 3 / 2, mark = ''x'', strict = True\<rparr>"]
  by (simp add: Let_def positive_durations_def non_overlapping_def overlaps_def too_late_def
      addInterval_def bisect_left_def bisect_left_loop.simps Interval_lt_def Interval_eq_def
      list_insert_def)

text \<open>
  Claim C3 as stated fails.  In a non-strict tier holding \<open>(0, 1, a)\<close> the overlapping
  interval \<open>(0, 1, b)\<close> is not inserted: \<open>addInterval\<close> raises the duplicate
  \<open>ValueError\<close>.  In a strict tier with \<open>minTime = 0\<close> holding \<open>(0, 1, a)\<close> the
  overlapping interval \<open>(-1, 0.5, b)\<close> raises \<open>ValueError(self.minTime)\<close>, which carries
  the bound and neither interval.
\<close>

theorem overlap_insertion_counterexample:
  "addInterval
     \<lparr>name = PNone, minTime_t = 0, maxTime_t = None,
      intervals = [\<lparr>minTime = 0, maxTime = 1, mark = ''a'', strict = False\<rparr>], strict_t = False\<rparr>
     \<lparr>minTime = 0, maxTime = 1, mark = ''b'', strict = True\<rparr>
   = Inl (ValueError_duplicate \<lparr>minTime = 0, maxTime = 1, mark = ''a'', strict = False\<rparr>)
   \<and> overlaps \<lparr>minTime = 0, maxTime = 1, mark = ''a'', strict = False\<rparr>
        \<lparr>minTime = 0, maxTime = 1, mark = ''b'', strict = True\<rparr>
   \<and> addInterval
     \<lparr>name = PNone, minTime_t = 0, maxTime_t = None,
      intervals = [\<lparr>minTime = 0, maxTime = 1, mark = ''a'', strict = True\<rparr>], strict_t = True\<rparr>
     \<lparr>minTime = - 1, maxTime = 1 / 2, mark = ''b'', strict = True\<rparr>
   = Inl (ValueError_too_early 0)
   \<and> overlaps \<lparr>minTime = 0, maxTime = 1, mark = ''a'', strict = True\<rparr>
        \<lparr>minTime = - 1, maxTime = 1 / 2, mark = ''b'', strict = True\<rparr>"
  by (simp add: overlaps_def too_late_def
      addInterval_def bisect_left_def bisect_left_loop.simps Interval_lt_def Interval_eq_def
      list_insert_def)

section \<open>Bounds checks of add\<close>

lemma bisect_left_loop_total:
  "\<forall>k<length a. \<exists>b. lt (a ! k) x = Inr (b, []) \<Longrightarrow> hi \<le> length a \<Longrightarrow>
   \<exists>i. lo \<le> i \<and> i \<le> max lo hi \<and> bisect_left_loop lt a x lo hi = Inr (i, [])"
proof (induction "hi - lo" arbitrary: lo hi rule: less_induct)
  case less
  let ?mid = "(lo + hi) div 2"
  show ?case
  proof (cases "lo < hi")
    case False
    then show ?thesis by (simp add: bisect_left_loop_stop)
  next
    case True
    then have mid: "lo \<le> ?mid" "?mid < hi" "?mid < length a" using less.prems(2) by auto
    obtain b where c: "lt (a ! ?mid) x = Inr (b, [])" using less.prems(1) mid by blast
    show ?thesis
    proof (cases b)
      case t: True
      have "hi - (?mid + 1) < hi - lo" using mid by auto
      then obtain i where "?mid + 1 \<le> i \<and> i \<le> max (?mid + 1) hi"
        "bisect_left_loop lt a x (?mid + 1) hi = Inr (i, [])"
        using less.hyps less.prems by blast
      then show ?thesis using c t True mid by (auto simp add: bisect_left_loop_right)
    next
      case f: False
      have "?mid - lo < hi - lo" "?mid \<le> length a" using mid by auto
      then obtain i where "lo \<le> i \<and> i \<le> max lo ?mid"
        "bisect_left_loop lt a x lo ?mid = Inr (i, [])"
        using less.hyps less.prems(1) by blast
      then show ?thesis using c f True mid by (auto simp add: bisect_left_loop_left)
    qed
  qed
qed

lemma bisect_left_Point_total: "\<exists>i. i \<le> length a \<and> bisect_left Point_lt a p = Inr (i, [])"
  using bisect_left_loop_total[of a Point_lt p "length a" 0]
  by (auto simp: bisect_left_def Point_lt_def)

lemma bisect_left_Interval_not_too_late:
  "bisect_left Interval_lt a x \<noteq> Inl (ValueError_too_late m)"
  using bisect_left_loop_raise_form[of a x 0 "length a" "ValueError_too_late m"]
  by (auto simp: bisect_left_def)

text \<open>
  Claim C8, amended.  \<open>addInterval\<close> and \<open>addPoint\<close> raise \<open>ValueError(self.minTime)\<close>
  (too early) whenever the new element starts strictly below the tier's \<open>minTime\<close>.  They
  raise \<open>ValueError(self.maxTime)\<close> (too late) whenever the element is not too early, the
  tier's \<open>maxTime\<close> is set and is not zero, and the element's end (or time) exceeds it.  A
  tier whose \<open>maxTime\<close> is \<open>None\<close> never raises the too-late error.
\<close>

theorem add_out_of_bounds:
  "(minTime i < minTime_t t \<longrightarrow> addInterval t i = Inl (ValueError_too_early (minTime_t t)))
   \<and> (\<not> minTime i < minTime_t t \<and> maxTime_t t = Some m \<and> m \<noteq> 0 \<and> maxTime i > m
        \<longrightarrow> addInterval t i = Inl (ValueError_too_late m))
   \<and> (maxTime_t t = None \<longrightarrow> (\<forall>m'. addInterval t i \<noteq> Inl (ValueError_too_late m')))
   \<and> (time p < minTime_pt pt \<longrightarrow> addPoint pt p = Inl (ValueError_too_early (minTime_pt pt)))
   \<and> (\<not> time p < minTime_pt pt \<and> maxTime_pt pt = Some m \<and> m \<noteq> 0 \<and> time p > m
        \<longrightarrow> addPoint pt p = Inl (ValueError_too_late m))
   \<and> (maxTime_pt pt = None \<longrightarrow> (\<forall>m'. addPoint pt p \<noteq> Inl (ValueError_too_late m')))"
proof (intro conjI impI allI)
  assume "minTime i < minTime_t t"
  then show "addInterval t i = Inl (ValueError_too_early (minTime_t t))"
    by (simp add: addInterval_def)
next
  assume "\<not> minTime i < minTime_t t \<and> maxTime_t t = Some m \<and> m \<noteq> 0 \<and> maxTime i > m"
  then show "addInterval t i = Inl (ValueError_too_late m)"
    by (simp add: addInterval_def too_late_def)
next
  fix m' assume "maxTime_t t = None"
  then show "addInterval t i \<noteq> Inl (ValueError_too_late m')"
    using bisect_left_Interval_not_too_late[of "intervals t" i m']
    by (auto simp: addInterval_def too_late_def split: sum.splits if_splits)
next
  assume "time p < minTime_pt pt"
  then show "addPoint pt p = Inl (ValueError_too_early (minTime_pt pt))"
    by (simp add: addPoint_def Point_lt_num_def)
next
  assume "\<not> time p < minTime_pt pt \<and> maxTime_pt pt = Some m \<and> m \<noteq> 0 \<and> time p > m"
  then show "addPoint pt p = Inl (ValueError_too_late m)"
    by (simp add: addPoint_def Point_lt_num_def too_late_def)
next
  fix m' assume "maxTime_pt pt = None"
  then show "addPoint pt p \<noteq> Inl (ValueError_too_late m')"
    using bisect_left_Point_total[of "points pt" p]
    by (auto simp: addPoint_def too_late_def split: sum.splits if_splits)
qed

text \<open>
  The theorem at tiers with \<open>minTime = 1\<close> and \<open>maxTime\<close> 2 or \<open>None\<close>, for an element
  that starts at 0 and one that ends at 3.
\<close>

theorem add_out_of_bounds_witness:
  "(let t = \<lparr>name = PNone, minTime_t = 1, maxTime_t = Some 2, intervals = [], strict_t = True\<rparr>;
        u = \<lparr>name = PNone, minTime_t = 1, maxTime_t = None, intervals = [], strict_t = True\<rparr>;
        pt = \<lparr>name_pt = PNone, minTime_pt = 1, maxTime_pt = Some 2, points = [], strict_pt = None\<rparr>;
        pu = \<lparr>name_pt = PNone, minTime_pt = 1, maxTime_pt = None, points = [], strict_pt = None\<rparr>;
        early = \<lparr>minTime = 0, maxTime = 3 / 2, mark = ''e'', strict = True\<rparr>;
        late = \<lparr>minTime = 1, maxTime = 3, mark = ''l'', strict = True\<rparr>
    in addInterval t early = Inl (ValueError_too_early 1)
       \<and> addInterval t late = Inl (ValueError_too_late 2)
       \<and> addInterval u late = Inr (u\<lparr>intervals := [late]\<rparr>, [])
       \<and> addPoint pt \<lparr>time = 0, mark_p = ''e'', strict_p = None\<rparr> = Inl (ValueError_too_early 1)
       \<and> addPoint pt \<lparr>time = 3, mark_p = ''l'', strict_p = None\<rparr> = Inl (ValueError_too_late 2)
       \<and> addPoint pu \<lparr>time = 3, mark_p = ''l'', strict_p = None\<rparr>
           = Inr (pu\<lparr>points := [\<lparr>time = 3, mark_p = ''l'', strict_p = None\<rparr>]\<rparr>))"
  using add_out_of_bounds[of "\<lparr>minTime = 0, maxTime = 3 / 2, mark = ''e'', strict = True\<rparr>"
      "\<lparr>name = PNone, minTime_t = 1, maxTime_t = Some 2, intervals = [], strict_t = True\<rparr>" 2
      "\<lparr>time = 0, mark_p = ''e'', strict_p = None\<rparr>"
      "\<lparr>name_pt = PNone, minTime_pt = 1, maxTime_pt = Some 2, points = [], strict_pt = None\<rparr>"]
    add_out_of_bounds[of "\<lparr>minTime = 1, maxTime = 3, mark = ''l'', strict = True\<rparr>"
      "\<lparr>name = PNone, minTime_t = 1, maxTime_t = Some 2, intervals = [], strict_t = True\<rparr>" 2
      "\<lparr>time = 3, mark_p = ''l'', strict_p = None\<rparr>"
      "\<lparr>name_pt = PNone, minTime_pt = 1, maxTime_pt = Some 2, points = [], strict_pt = None\<rparr>"]
    add_out_of_bounds[of "\<lparr>minTime = 1, maxTime = 3, mark = ''l'', strict = True\<rparr>"
      "\<lparr>name = PNone, minTime_t = 1, maxTime_t = None, intervals = [], strict_t = True\<rparr>" 2
      "\<lparr>time = 3, mark_p = ''l'', strict_p = None\<rparr>"
      "\<lparr>name_pt = PNone, minTime_pt = 1, maxTime_pt = None, points = [], strict_pt = None\<rparr>"]
  by (simp add: Let_def addInterval_def addPoint_def too_late_def Point_lt_num_def
      bisect_left_def bisect_left_loop.simps list_insert_def)

text \<open>
  Claim C8 as stated fails.  An interval that is both too early and too late raises the
  too-early error, the first of the two checks.  In a tier with \<open>minTime = -1\<close> and
  \<open>maxTime = 0\<close> the test \<open>self.maxTime and ...\<close> is falsy, so an interval ending at 0.5
  and a point at 0.5 are inserted although they exceed the declared \<open>maxTime\<close>.
\<close>

theorem add_out_of_bounds_counterexample:
  "addInterval
     \<lparr>name = PNone, minTime_t = 0, maxTime_t = Some 1, intervals = [], strict_t = True\<rparr>
     \<lparr>minTime = - 1, maxTime = 2, mark = ''x'', strict = True\<rparr>
   = Inl (ValueError_too_early 0)
   \<and> addInterval
     \<lparr>name = PNone, minTime_t = - 1, maxTime_t = Some 0, intervals = [], strict_t = True\<rparr>
     \<lparr>minTime = - 1 / 2, maxTime = 1 / 2, mark = ''x'', strict = True\<rparr>
   = Inr (\<lparr>name = PNone, minTime_t = - 1, maxTime_t = Some 0,
           intervals = [\<lparr>minTime = - 1 / 2, maxTime = 1 / 2, mark = ''x'', strict = True\<rparr>],
           strict_t = True\<rparr>, [])
   \<and> addPoint
     \<lparr>name_pt = PNone, minTime_pt = - 1, maxTime_pt = Some 0, points = [], strict_pt = None\<rparr>
     \<lparr>time = 1 / 2, mark_p = ''x'', strict_p = None\<rparr>
   = Inr \<lparr>name_pt = PNone, minTime_pt = - 1, maxTime_pt = Some 0,
          points = [\<lparr>time = 1 / 2, mark_p = ''x'', strict_p = None\<rparr>], strict_pt = None\<rparr>"
  by (simp add: addInterval_def addPoint_def too_late_def Point_lt_num_def
      bisect_left_def bisect_left_loop.simps list_insert_def)

section \<open>Sortedness of a tier under add\<close>

lemma non_overlapping_list_insert:
  assumes "non_overlapping a" "\<forall>y\<in>set a. \<not> overlaps y x"
  shows "non_overlapping (list_insert a k x)"
proof -
  have sym: "\<And>u v. overlaps u v = overlaps v u" by (auto simp: overlaps_def)
  have "sorted_wrt (\<lambda>u v. \<not> overlaps u v) (take k a @ drop k a)"
    using assms(1) by (simp add: non_overlapping_def)
  then have "sorted_wrt (\<lambda>u v. \<not> overlaps u v) (take k a)"
    "sorted_wrt (\<lambda>u v. \<not> overlaps u v) (drop k a)"
    "\<forall>u\<in>set (take k a). \<forall>v\<in>set (drop k a). \<not> overlaps u v"
    unfolding sorted_wrt_append by auto
  moreover have "\<forall>u\<in>set (take k a). \<not> overlaps u x" "\<forall>v\<in>set (drop k a). \<not> overlaps x v"
    using assms(2) sym by (auto dest: in_set_takeD in_set_dropD)
  ultimately show ?thesis
    by (auto simp: non_overlapping_def list_insert_def sorted_wrt_append)
qed

lemma set_list_insert: "set (list_insert a k x) = insert x (set a)"
proof -
  have "set (take k a) \<union> set (drop k a) = set a" by (metis append_take_drop_id set_append)
  then show ?thesis by (auto simp: list_insert_def)
qed

lemma length_list_insert: "k \<le> length a \<Longrightarrow> length (list_insert a k x) = Suc (length a)"
  by (simp add: list_insert_def)

text \<open>One \<open>add\<close> of an interval that overlaps nothing in a well-ordered tier.\<close>

lemma add_disjoint:
  assumes inv: "positive_durations (intervals t)" "sorted (map minTime (intervals t))"
      "non_overlapping (intervals t)"
    and new: "a < b" "minTime_t t \<le> a" "case maxTime_t t of None \<Rightarrow> True | Some M \<Rightarrow> b \<le> M"
    and dis: "\<forall>y\<in>set (intervals t). \<not> (a < maxTime y \<and> minTime y < b)"
  shows "\<exists>k\<le>length (intervals t). add t a b m =
      Inr (t\<lparr>intervals := list_insert (intervals t) k
                \<lparr>minTime = a, maxTime = b, mark = m, strict = strict_t t\<rparr>\<rparr>, [])
      \<and> sorted (map minTime (list_insert (intervals t) k
                \<lparr>minTime = a, maxTime = b, mark = m, strict = strict_t t\<rparr>))"
proof -
  let ?x = "\<lparr>minTime = a, maxTime = b, mark = m, strict = strict_t t\<rparr>"
  let ?as = "intervals t"
  have no: "\<forall>k<length ?as. \<not> overlaps (?as ! k) ?x"
    using dis by (auto simp: overlaps_def)
  obtain k where k: "bisect_left Interval_lt ?as ?x = Inr (k, [])"
    using bisect_left_loop_no_overlap[OF no, of "length ?as" 0] by (auto simp: bisect_left_def)
  have srt: "k \<le> length ?as \<and> sorted (map minTime (list_insert ?as k ?x))"
    using bisect_left_Interval_sorted_insert[OF inv(2) k, of ?x] by simp
  have nodup: "\<not> (k \<noteq> length ?as \<and> Interval_eq (?as ! k) ?x)"
  proof
    assume d: "k \<noteq> length ?as \<and> Interval_eq (?as ! k) ?x"
    then have "k < length ?as" using srt by simp
    moreover from d have "minTime (?as ! k) = a" "maxTime (?as ! k) = b"
      by (simp_all add: Interval_eq_def)
    ultimately show False using no new(1) by (auto simp: overlaps_def)
  qed
  have "\<not> too_late (maxTime_t t) b" using new(3) by (auto simp: too_late_def split: option.splits)
  then have "addInterval t ?x = Inr (t\<lparr>intervals := list_insert ?as k ?x\<rparr>, [])"
    using new(2) k nodup by (simp add: addInterval_in_bounds)
  then have "add t a b m = Inr (t\<lparr>intervals := list_insert ?as k ?x\<rparr>, [])"
    using new(1) by (simp add: add_def Interval_init_def)
  then show ?thesis using srt by blast
qed

lemma add_all_disjoint:
  "positive_durations (intervals t) \<Longrightarrow> sorted (map minTime (intervals t)) \<Longrightarrow>
   non_overlapping (intervals t) \<Longrightarrow>
   list_all (\<lambda>(a, b, m). a < b \<and> minTime_t t \<le> a
              \<and> (case maxTime_t t of None \<Rightarrow> True | Some M \<Rightarrow> b \<le> M)) xs \<Longrightarrow>
   sorted_wrt (\<lambda>(a, b, m) (c, d, n). \<not> (c < b \<and> a < d)) xs \<Longrightarrow>
   \<forall>y\<in>set (intervals t). \<forall>(a, b, m)\<in>set xs. \<not> (a < maxTime y \<and> minTime y < b) \<Longrightarrow>
   \<exists>t1. add_all t xs = Inr (t1, [])
     \<and> positive_durations (intervals t1) \<and> sorted (map minTime (intervals t1))
     \<and> non_overlapping (intervals t1)
     \<and> length (intervals t1) = length (intervals t) + length xs
     \<and> set (map triple (intervals t1)) = set (map triple (intervals t)) \<union> set xs"
proof (induction xs arbitrary: t)
  case Nil
  then show ?case by simp
next
  case (Cons x xs)
  obtain a b m where x: "x = (a, b, m)" by (cases x)
  let ?x = "\<lparr>minTime = a, maxTime = b, mark = m, strict = strict_t t\<rparr>"
  have new: "a < b" "minTime_t t \<le> a" "case maxTime_t t of None \<Rightarrow> True | Some M \<Rightarrow> b \<le> M"
    using Cons.prems(4) x by simp_all
  have dis: "\<forall>y\<in>set (intervals t). \<not> (a < maxTime y \<and> minTime y < b)"
    using Cons.prems(6) x by auto
  obtain k where k: "k \<le> length (intervals t)"
    "add t a b m = Inr (t\<lparr>intervals := list_insert (intervals t) k ?x\<rparr>, [])"
    "sorted (map minTime (list_insert (intervals t) k ?x))"
    using add_disjoint[OF Cons.prems(1,2,3) new dis, of m] by blast
  let ?t = "t\<lparr>intervals := list_insert (intervals t) k ?x\<rparr>"
  have p1: "positive_durations (intervals ?t)"
    using Cons.prems(1) new(1) by (simp add: positive_durations_def list_all_iff set_list_insert)
  have p2: "sorted (map minTime (intervals ?t))" using k(3) by simp
  have "\<forall>y\<in>set (intervals t). \<not> overlaps y ?x" using dis by (auto simp: overlaps_def)
  then have p3: "non_overlapping (intervals ?t)"
    using non_overlapping_list_insert[OF Cons.prems(3)] by simp
  have p4: "list_all (\<lambda>(a, b, m). a < b \<and> minTime_t ?t \<le> a
              \<and> (case maxTime_t ?t of None \<Rightarrow> True | Some M \<Rightarrow> b \<le> M)) xs"
    using Cons.prems(4) by simp
  have p5: "sorted_wrt (\<lambda>(a, b, m) (c, d, n). \<not> (c < b \<and> a < d)) xs"
    using Cons.prems(5) by simp
  have "\<forall>(c, d, n)\<in>set xs. \<not> (d > a \<and> c < b)"
    using Cons.prems(5) x by auto
  then have p6: "\<forall>y\<in>set (intervals ?t). \<forall>(a, b, m)\<in>set xs. \<not> (a < maxTime y \<and> minTime y < b)"
    using Cons.prems(6) by (auto simp: set_list_insert)
  obtain t1 where t1: "add_all ?t xs = Inr (t1, [])"
     "positive_durations (intervals t1)" "sorted (map minTime (intervals t1))"
     "non_overlapping (intervals t1)"
     "length (intervals t1) = length (intervals ?t) + length xs"
     "set (map triple (intervals t1)) = set (map triple (intervals ?t)) \<union> set xs"
    using Cons.IH[OF p1 p2 p3 p4 p5 p6] by blast
  have "add_all t (x # xs) = Inr (t1, [])" using k(2) t1(1) x by simp
  moreover have "length (intervals t1) = length (intervals t) + length (x # xs)"
    using t1(5) k(1) by (simp add: length_list_insert)
  moreover have "set (map triple (intervals t1)) = set (map triple (intervals t)) \<union> set (x # xs)"
    using t1(6) x by (auto simp: set_list_insert triple_def)
  ultimately show ?case using t1(2,3,4) by blast
qed

lemma strictly_sorted_starts:
  assumes "positive_durations a" "sorted (map minTime a)" "non_overlapping a"
  shows "sorted_wrt (<) (map minTime a)"
proof -
  have "\<And>j k. j < k \<Longrightarrow> k < length a \<Longrightarrow> minTime (a ! j) < minTime (a ! k)"
  proof -
    fix j k assume jk: "j < k" "k < length a"
    have "minTime (a ! j) < maxTime (a ! j)"
      using assms(1) jk by (simp add: positive_durations_def list_all_length)
    then show "minTime (a ! j) < minTime (a ! k)" using chain_nth[OF assms jk] by simp
  qed
  then show ?thesis by (simp add: sorted_wrt_iff_nth_less)
qed

text \<open>
  Claim C2.  Whenever \<open>addInterval\<close> or \<open>add\<close> returns on a tier sorted by start time,
  the tier it leaves is sorted by start time.  And for every list \<open>xs\<close> of triples
  \<open>(start, end, mark)\<close> with \<open>start < end\<close>, within the bounds of an empty tier and
  mutually non-overlapping, in whatever order the list has them, adding them one after the
  other raises nothing and logs nothing, and the tier then holds exactly these intervals in
  strictly ascending order of start time.  The tier's \<open>strict\<close> flag plays no part, so this
  holds for a strict tier in particular.
\<close>

theorem add_keeps_sorted:
  "(sorted (map minTime (intervals t)) \<and> addInterval t i = Inr (t', ws)
      \<longrightarrow> sorted (map minTime (intervals t')))
   \<and> (sorted (map minTime (intervals t)) \<and> add t a b m = Inr (t', ws)
      \<longrightarrow> sorted (map minTime (intervals t')))
   \<and> (intervals t0 = []
       \<and> list_all (\<lambda>(a, b, m). a < b \<and> minTime_t t0 \<le> a
              \<and> (case maxTime_t t0 of None \<Rightarrow> True | Some M \<Rightarrow> b \<le> M)) xs
       \<and> sorted_wrt (\<lambda>(a, b, m) (c, d, n). \<not> (c < b \<and> a < d)) xs
      \<longrightarrow> (\<exists>t1. add_all t0 xs = Inr (t1, [])
            \<and> sorted_wrt (<) (map minTime (intervals t1))
            \<and> length (intervals t1) = length xs
            \<and> set (map triple (intervals t1)) = set xs))"
proof (intro conjI impI)
  assume "sorted (map minTime (intervals t)) \<and> addInterval t i = Inr (t', ws)"
  then show "sorted (map minTime (intervals t'))" using addInterval_sorted by blast
next
  assume h: "sorted (map minTime (intervals t)) \<and> add t a b m = Inr (t', ws)"
  then obtain x where "addInterval t x = Inr (t', ws)"
    by (auto simp: add_def split: sum.splits)
  then show "sorted (map minTime (intervals t'))" using h addInterval_sorted by blast
next
  assume h: "intervals t0 = []
       \<and> list_all (\<lambda>(a, b, m). a < b \<and> minTime_t t0 \<le> a
              \<and> (case maxTime_t t0 of None \<Rightarrow> True | Some M \<Rightarrow> b \<le> M)) xs
       \<and> sorted_wrt (\<lambda>(a, b, m) (c, d, n). \<not> (c < b \<and> a < d)) xs"
  then obtain t1 where t1: "add_all t0 xs = Inr (t1, [])"
     "positive_durations (intervals t1)" "sorted (map minTime (intervals t1))"
     "non_overlapping (intervals t1)"
     "length (intervals t1) = length (intervals t0) + length xs"
     "set (map triple (intervals t1)) = set (map triple (intervals t0)) \<union> set xs"
    using add_all_disjoint[of t0 xs]
    by (auto simp: positive_durations_def non_overlapping_def)
  then show "\<exists>t1. add_all t0 xs = Inr (t1, [])
            \<and> sorted_wrt (<) (map minTime (intervals t1))
            \<and> length (intervals t1) = length xs
            \<and> set (map triple (intervals t1)) = set xs"
    using strictly_sorted_starts[OF t1(2,3,4)] h by auto
qed

text \<open>The theorem at four intervals inserted out of order into a tier with bounds 0 and 10.\<close>

theorem add_keeps_sorted_witness:
  "(let t0 = \<lparr>name = PStr ''words'', minTime_t = 0, maxTime_t = Some 10, intervals = [],
              strict_t = True\<rparr>;
        xs = [(4, 5, ''c''), (0, 1, ''a''), (7, 10, ''d''), (1, 3, ''b'')]
    in list_all (\<lambda>(a, b, m). a < b \<and> minTime_t t0 \<le> a
              \<and> (case maxTime_t t0 of None \<Rightarrow> True | Some M \<Rightarrow> b \<le> M)) xs
       \<and> sorted_wrt (\<lambda>(a, b, m) (c, d, n). \<not> (c < b \<and> a < d)) xs
       \<and> map_sum id (\<lambda>(t1, ws). (map triple (intervals t1), ws)) (add_all t0 xs)
          = Inr ([(0, 1, ''a''), (1, 3, ''b''), (4, 5, ''c''), (7, 10, ''d'')], []))"
  using add_keeps_sorted[of
      "\<lparr>name = PStr ''words'', minTime_t = 0, maxTime_t = Some 10, intervals = [], strict_t = True\<rparr>"
      "\<lparr>minTime = 0, maxTime = 1, mark = ''a'', strict = True\<rparr>"
      "\<lparr>name = PStr ''words'', minTime_t = 0, maxTime_t = Some 10,
        intervals = [\<lparr>minTime = 0, maxTime = 1, mark = ''a'', strict = True\<rparr>], strict_t = True\<rparr>"
      "[]" 0 1 "''a''"
      "\<lparr>name = PStr ''words'', minTime_t = 0, maxTime_t = Some 10, intervals = [], strict_t = True\<rparr>"
      "[(4, 5, ''c''), (0, 1, ''a''), (7, 10, ''d''), (1, 3, ''b'')]"]
  by (simp add: Let_def add_def addInterval_def Interval_init_def too_late_def triple_def
      bisect_left_def bisect_left_loop.simps Interval_lt_def Interval_eq_def overlaps_def
      list_insert_def)

section \<open>Appending tiers to an annotation set\<close>

text \<open>
  Claim C6 does not hold of the code.  \<open>append\<close> never compares \<open>minTime\<close>: a set with
  bounds 0 and 10 accepts a tier that starts at -1.  \<open>extend\<close> compares the largest
  \<open>minTime\<close> of the tiers with the set's \<open>maxTime\<close> and writes no \<open>strict\<close> flag: a
  non-strict set with \<open>maxTime = 10\<close> accepts a tier with \<open>maxTime = 20\<close> and leaves the
  tier and its interval strict.
\<close>

theorem append_extend_divergence:
  "TextGrid_append \<lparr>name_tg = PNone, minTime_tg = 0, maxTime_tg = Some 10, tiers = [], strict_tg = True\<rparr>
     (IntervalTier \<lparr>name = PStr ''t'', minTime_t = - 1, maxTime_t = Some 5, intervals = [],
        strict_t = True\<rparr>)
   = Inr \<lparr>name_tg = PNone, minTime_tg = 0, maxTime_tg = Some 10,
          tiers = [IntervalTier \<lparr>name = PStr ''t'', minTime_t = - 1, maxTime_t = Some 5,
                     intervals = [], strict_t = True\<rparr>], strict_tg = True\<rparr>
   \<and> TextGrid_extend \<lparr>name_tg = PNone, minTime_tg = 0, maxTime_tg = Some 10, tiers = [], strict_tg = False\<rparr>
     [IntervalTier \<lparr>name = PStr ''t'', minTime_t = 0, maxTime_t = Some 20,
        intervals = [\<lparr>minTime = 0, maxTime = 20, mark = ''a'', strict = True\<rparr>], strict_t = True\<rparr>]
   = Inr \<lparr>name_tg = PNone, minTime_tg = 0, maxTime_tg = Some 10,
          tiers = [IntervalTier \<lparr>name = PStr ''t'', minTime_t = 0, maxTime_t = Some 20,
                     intervals = [\<lparr>minTime = 0, maxTime = 20, mark = ''a'', strict = True\<rparr>],
                     strict_t = True\<rparr>], strict_tg = False\<rparr>"
  by (simp add: TextGrid_append_def TextGrid_extend_def too_late_def)

section \<open>Properties of the MLF reader\<close>

lemma utterance_loop_period:
  "length (split (rstrip raw)) \<noteq> 3 \<Longrightarrow> length (split (rstrip raw)) \<noteq> 4 \<Longrightarrow>
   utterance_loop sr rd u (raw # source) =
     (case add (word u) (wsrt u) (wend u) (wmrk u) of
        Inl e \<Rightarrow> Inl e
      | Inr (w, ws) \<Rightarrow> Inr (u\<lparr>word := w\<rparr>, source))"
  by (simp add: Let_def)

lemma split_period: "length (split (rstrip ''.\<newline>'')) = 1"
  by (simp add: split_def rstrip_def is_space_def)



lemmas float_eval = sample_time_def py_float_def strip_def lstrip_def rstrip_def is_space_def
  unsigned_float_def is_digit_def nat_of_digits_def digit_val_def py_round_def
  round_half_even_def Let_def

lemma sample_times:
  "sample_time ''0'' 10000000 5 = Inr 0"
  "sample_time ''500000'' 10000000 5 = Inr (5 / 100)"
  "sample_time ''1200000'' 10000000 5 = Inr (12 / 100)"
  "sample_time ''1800000'' 10000000 5 = Inr (18 / 100)"
  by (simp_all add: float_eval)

lemma fields:
  "split (rstrip ''0 500000 k\<newline>'') = [''0'', ''500000'', ''k'']"
  "split (rstrip ''500000 1200000 ae\<newline>'') = [''500000'', ''1200000'', ''ae'']"
  "split (rstrip ''1200000 1800000 t cat\<newline>'') = [''1200000'', ''1800000'', ''t'', ''cat'']"
  "split (rstrip ''0 500000 k cat\<newline>'') = [''0'', ''500000'', ''k'', ''cat'']"
  "split (rstrip ''1200000 1800000 t\<newline>'') = [''1200000'', ''1800000'', ''t'']"
  "split (rstrip ''.\<newline>'') = [''.'']"
  "split (rstrip ''foo bar\<newline>'') = [''foo'', ''bar'']"
  by code_simp+

lemma name_line: "match_name (rstrip ''\"*/utt.lab\"\<newline>'') = Some ''*/utt.lab''"
  by code_simp

lemma lines1:
  "splitlines ''#!MLF!#\<newline>\"*/utt.lab\"\<newline>0 500000 k\<newline>500000 1200000 ae\<newline>1200000 1800000 t cat\<newline>.\<newline>''
   = [''#!MLF!#\<newline>'', ''\"*/utt.lab\"\<newline>'', ''0 500000 k\<newline>'', ''500000 1200000 ae\<newline>'',
      ''1200000 1800000 t cat\<newline>'', ''.\<newline>'']"
  by code_simp

lemma lines2:
  "splitlines ''#!MLF!#\<newline>\"*/utt.lab\"\<newline>0 500000 k cat\<newline>500000 1200000 ae\<newline>1200000 1800000 t\<newline>.\<newline>''
   = [''#!MLF!#\<newline>'', ''\"*/utt.lab\"\<newline>'', ''0 500000 k cat\<newline>'', ''500000 1200000 ae\<newline>'',
      ''1200000 1800000 t\<newline>'', ''.\<newline>'']"
  by code_simp


lemmas tier_eval = add_def addInterval_def Interval_init_def too_late_def bisect_left_def
  bisect_left_loop.simps Interval_lt_def Interval_eq_def overlaps_def list_insert_def
  flush_word_def TextGrid_append_def TextGrid_init_def IntervalTier_init_def grid_view_def
  triple_def

lemma bisect_left_loop_all_less:
  "\<forall>k<length a. \<exists>w. lt (a ! k) x = Inr (True, w) \<Longrightarrow> lo \<le> hi \<Longrightarrow> hi \<le> length a \<Longrightarrow>
   \<exists>ws. bisect_left_loop lt a x lo hi = Inr (hi, ws)"
proof (induction "hi - lo" arbitrary: lo rule: less_induct)
  case less
  let ?mid = "(lo + hi) div 2"
  show ?case
  proof (cases "lo < hi")
    case False
    then have "lo = hi" using less.prems(2) by simp
    then show ?thesis by (simp add: bisect_left_loop_stop)
  next
    case True
    then have mid: "?mid < hi" "?mid < length a" "?mid + 1 \<le> hi" using less.prems(3) by auto
    obtain w where c: "lt (a ! ?mid) x = Inr (True, w)" using less.prems(1) mid by blast
    have "hi - (?mid + 1) < hi - lo" using True by auto
    then obtain ws where "bisect_left_loop lt a x (?mid + 1) hi = Inr (hi, ws)"
      using less.hyps[of "?mid + 1"] less.prems(1,3) mid(3) by blast
    then show ?thesis using c True by (simp add: bisect_left_loop_right)
  qed
qed

lemma list_insert_end: "list_insert a (length a) x = a @ [x]"
  by (simp add: list_insert_def)

text \<open>An interval that starts where all the others have ended is inserted last.\<close>

lemma addInterval_append:
  assumes "\<forall>y\<in>set (intervals t). maxTime y \<le> minTime x \<and> minTime y < maxTime y"
    and "minTime_t t \<le> minTime x" and "\<not> too_late (maxTime_t t) (maxTime x)"
  shows "\<exists>ws. addInterval t x = Inr (t\<lparr>intervals := intervals t @ [x\<lparr>strict := strict_t t\<rparr>]\<rparr>, ws)"
proof -
  let ?a = "intervals t"
  have "\<forall>k<length ?a. \<exists>w. Interval_lt (?a ! k) x = Inr (True, w)"
  proof (intro allI impI)
    fix k assume "k < length ?a"
    then have "maxTime (?a ! k) \<le> minTime x \<and> minTime (?a ! k) < maxTime (?a ! k)"
      using assms(1) by simp
    then show "\<exists>w. Interval_lt (?a ! k) x = Inr (True, w)"
      by (auto simp: Interval_lt_def overlaps_def)
  qed
  then obtain ws where "bisect_left Interval_lt ?a x = Inr (length ?a, ws)"
    using bisect_left_loop_all_less[of ?a Interval_lt x 0 "length ?a"]
    by (auto simp: bisect_left_def)
  then show ?thesis using assms(2,3) by (simp add: addInterval_def list_insert_end)
qed

text \<open>A point later than all the others is inserted last.\<close>


lemma lines4:
  "splitlines ''#!MLF!#\<newline>\"*/a.lab\"\<newline>0 500000 k\<newline>.\<newline>''
   = [''#!MLF!#\<newline>'', ''\"*/a.lab\"\<newline>'', ''0 500000 k\<newline>'', ''.\<newline>'']"
  by code_simp

lemma name_line_a: "match_name (rstrip ''\"*/a.lab\"\<newline>'') = Some ''*/a.lab''"
  by code_simp

text \<open>
  Claim C10.  In the utterance loop every line whose field count is neither 3 nor 4, the
  terminator among them, runs \<open>word.add(wsrt, wend, wmrk)\<close> whatever \<open>wmrk\<close> is: the
  result of the loop is the error of that \<open>add\<close>, or the utterance with the new word tier.
  When \<open>wsrt < wend\<close> fails, the constructor raises \<open>ValueError(wsrt, wend)\<close>.  When it
  holds and the words read so far end by \<open>wsrt\<close>, the interval \<open>(wsrt, wend, wmrk)\<close> is
  appended to the word tier, also with the empty label: the utterance \<open>0 500000 k\<close>, \<open>.\<close>
  at sample rate \<open>10e6\<close> has the words \<open>[(0, 0.05, '')]\<close>.  For a file whose utterance
  block is a quoted name followed at once by the terminator, with any sample rate and
  precision, \<open>MLF.read\<close> raises the \<open>ValueError(0.0, 0.0)\<close> of \<open>Interval.__init__\<close>.
\<close>

theorem MLF_terminator_flushes_always:
  "(length (split (rstrip raw)) \<noteq> 3 \<and> length (split (rstrip raw)) \<noteq> 4 \<longrightarrow>
      utterance_loop sr rd u (raw # source) =
        (case add (word u) (wsrt u) (wend u) (wmrk u) of
           Inl e \<Rightarrow> Inl e
         | Inr (w, ws) \<Rightarrow> Inr (u\<lparr>word := w\<rparr>, source))
      \<and> (\<not> wsrt u < wend u \<longrightarrow>
           utterance_loop sr rd u (raw # source) = Inl (ValueError_degenerate (wsrt u) (wend u)))
      \<and> (wsrt u < wend u
           \<and> (\<forall>y\<in>set (intervals (word u)). maxTime y \<le> wsrt u \<and> minTime y < maxTime y)
           \<and> minTime_t (word u) \<le> wsrt u \<and> \<not> too_late (maxTime_t (word u)) (wend u) \<longrightarrow>
           utterance_loop sr rd u (raw # source) =
             Inr (u\<lparr>word := (word u)\<lparr>intervals := intervals (word u) @
                    [\<lparr>minTime = wsrt u, maxTime = wend u, mark = wmrk u,
                      strict = strict_t (word u)\<rparr>]\<rparr>\<rparr>, source)))
   \<and> utterance_loop sr rd u (''.\<newline>'' # source) =
        (case Interval_init (wsrt u) (wend u) (wmrk u) of
           Inl e \<Rightarrow> Inl e
         | Inr i \<Rightarrow>
             (case addInterval (word u) (i\<lparr>strict := strict_t (word u)\<rparr>) of
                Inl e \<Rightarrow> Inl e
              | Inr (w, ws) \<Rightarrow> Inr (u\<lparr>word := w\<rparr>, source)))
   \<and> MLF_read ''#!MLF!#\<newline>\"*/a.lab\"\<newline>.\<newline>'' sr rd = Inl (ValueError_degenerate 0 0)
   \<and> map_sum id (map grid_view)
        (MLF_read ''#!MLF!#\<newline>\"*/a.lab\"\<newline>0 500000 k\<newline>.\<newline>'' 10000000 DEFAULT_MLF_PRECISION)
      = Inr [[(PStr ''phones'', [(0, 5 / 100, ''k'')]), (PStr ''words'', [(0, 5 / 100, [])])]]"
proof (intro conjI impI)
  assume h: "length (split (rstrip raw)) \<noteq> 3 \<and> length (split (rstrip raw)) \<noteq> 4"
  then show "utterance_loop sr rd u (raw # source) =
        (case add (word u) (wsrt u) (wend u) (wmrk u) of
           Inl e \<Rightarrow> Inl e
         | Inr (w, ws) \<Rightarrow> Inr (u\<lparr>word := w\<rparr>, source))"
    by (simp add: utterance_loop_period)
  {
    assume "\<not> wsrt u < wend u"
    then show "utterance_loop sr rd u (raw # source) = Inl (ValueError_degenerate (wsrt u) (wend u))"
      using h by (simp add: utterance_loop_period add_def Interval_init_def)
  }
  {
    assume a: "wsrt u < wend u
           \<and> (\<forall>y\<in>set (intervals (word u)). maxTime y \<le> wsrt u \<and> minTime y < maxTime y)
           \<and> minTime_t (word u) \<le> wsrt u \<and> \<not> too_late (maxTime_t (word u)) (wend u)"
    let ?x = "\<lparr>minTime = wsrt u, maxTime = wend u, mark = wmrk u, strict = strict_t (word u)\<rparr>"
    obtain ws where "addInterval (word u) ?x
        = Inr ((word u)\<lparr>intervals := intervals (word u) @ [?x\<lparr>strict := strict_t (word u)\<rparr>]\<rparr>, ws)"
      using addInterval_append[of "word u" ?x] a by auto
    then show "utterance_loop sr rd u (raw # source) =
             Inr (u\<lparr>word := (word u)\<lparr>intervals := intervals (word u) @
                    [\<lparr>minTime = wsrt u, maxTime = wend u, mark = wmrk u,
                      strict = strict_t (word u)\<rparr>]\<rparr>\<rparr>, source)"
      using h a by (simp add: utterance_loop_period add_def Interval_init_def)
  }
next
  show "utterance_loop sr rd u (''.\<newline>'' # source) =
        (case Interval_init (wsrt u) (wend u) (wmrk u) of
           Inl e \<Rightarrow> Inl e
         | Inr i \<Rightarrow>
             (case addInterval (word u) (i\<lparr>strict := strict_t (word u)\<rparr>) of
                Inl e \<Rightarrow> Inl e
              | Inr (w, ws) \<Rightarrow> Inr (u\<lparr>word := w\<rparr>, source)))"
    using split_period by (simp add: utterance_loop_period add_def split: sum.splits)
next
  have l: "splitlines ''#!MLF!#\<newline>\"*/a.lab\"\<newline>.\<newline>''
      = [''#!MLF!#\<newline>'', ''\"*/a.lab\"\<newline>'', ''.\<newline>'']"
    by simp
  show "MLF_read ''#!MLF!#\<newline>\"*/a.lab\"\<newline>.\<newline>'' sr rd = Inl (ValueError_degenerate 0 0)"
    unfolding MLF_read_def l using split_period
    by (simp add: name_line_a utterance_loop_period add_def Interval_init_def del: utterance_loop.simps)
next
  show "map_sum id (map grid_view)
        (MLF_read ''#!MLF!#\<newline>\"*/a.lab\"\<newline>0 500000 k\<newline>.\<newline>'' 10000000 DEFAULT_MLF_PRECISION)
      = Inr [[(PStr ''phones'', [(0, 5 / 100, ''k'')]), (PStr ''words'', [(0, 5 / 100, [])])]]"
    unfolding MLF_read_def DEFAULT_MLF_PRECISION_def lines4
    by (simp add: fields name_line_a sample_times tier_eval)
qed

text \<open>
  The theorem at the terminator line read with no word pending, once with the accumulator
  at its initial values and once after a phone has moved \<open>wend\<close> to 0.05.
\<close>

theorem MLF_terminator_flushes_always_witness:
  "(let u0 = \<lparr>phon = IntervalTier_init (PStr ''phones'') 0 None,
              word = IntervalTier_init (PStr ''words'') 0 None, wmrk = [], wsrt = 0, wend = 0\<rparr>;
        u1 = u0\<lparr>wend := 5 / 100\<rparr>
    in length (split (rstrip ''.\<newline>'')) \<noteq> 3 \<and> length (split (rstrip ''.\<newline>'')) \<noteq> 4
     \<and> \<not> wsrt u0 < wend u0
     \<and> utterance_loop 10000000 5 u0 [''.\<newline>''] = Inl (ValueError_degenerate 0 0)
     \<and> wsrt u1 < wend u1 \<and> intervals (word u1) = [] \<and> minTime_t (word u1) \<le> wsrt u1
     \<and> \<not> too_late (maxTime_t (word u1)) (wend u1)
     \<and> utterance_loop 10000000 5 u1 [''.\<newline>'']
        = Inr (u1\<lparr>word := (word u1)\<lparr>intervals :=
                 [\<lparr>minTime = 0, maxTime = 5 / 100, mark = [], strict = True\<rparr>]\<rparr>\<rparr>, []))"
  using MLF_terminator_flushes_always[of "''.\<newline>''" 10000000 5
        "\<lparr>phon = IntervalTier_init (PStr ''phones'') 0 None,
         word = IntervalTier_init (PStr ''words'') 0 None, wmrk = [], wsrt = 0, wend = 0\<rparr>" "[]"]
    MLF_terminator_flushes_always[of "''.\<newline>''" 10000000 5
        "\<lparr>phon = IntervalTier_init (PStr ''phones'') 0 None,
         word = IntervalTier_init (PStr ''words'') 0 None, wmrk = [], wsrt = 0, wend = 5 / 100\<rparr>" "[]"]
  by (simp add: Let_def split_def rstrip_def is_space_def tier_eval)

text \<open>
  Claim C4, amended.  At sample rate \<open>10e6\<close> the utterance \<open>0 500000 k\<close>,
  \<open>500000 1200000 ae\<close>, \<open>1200000 1800000 t cat\<close>, \<open>.\<close> gives one annotation set with the
  phones \<open>[(0, 0.05, k), (0.05, 0.12, ae), (0.12, 0.18, t)]\<close> and the words
  \<open>[(0.12, 0.18, cat)]\<close>: the word starts at the record that carries its label.  With the
  label on the first record, \<open>0 500000 k cat\<close>, the words are \<open>[(0, 0.18, cat)]\<close>.
\<close>

theorem MLF_scenario:
  "map_sum id (map grid_view) (MLF_read
     ''#!MLF!#\<newline>\"*/utt.lab\"\<newline>0 500000 k\<newline>500000 1200000 ae\<newline>1200000 1800000 t cat\<newline>.\<newline>''
     10000000 DEFAULT_MLF_PRECISION)
   = Inr [[(PStr ''phones'', [(0, 5 / 100, ''k''), (5 / 100, 12 / 100, ''ae''), (12 / 100, 18 / 100, ''t'')]),
           (PStr ''words'', [(12 / 100, 18 / 100, ''cat'')])]]
   \<and> map_sum id (map grid_view) (MLF_read
     ''#!MLF!#\<newline>\"*/utt.lab\"\<newline>0 500000 k cat\<newline>500000 1200000 ae\<newline>1200000 1800000 t\<newline>.\<newline>''
     10000000 DEFAULT_MLF_PRECISION)
   = Inr [[(PStr ''phones'', [(0, 5 / 100, ''k''), (5 / 100, 12 / 100, ''ae''), (12 / 100, 18 / 100, ''t'')]),
           (PStr ''words'', [(0, 18 / 100, ''cat'')])]]"
  unfolding MLF_read_def DEFAULT_MLF_PRECISION_def lines1 lines2
  by (simp add: fields name_line sample_times tier_eval)

text \<open>Claim C4 as stated fails: the words tier of its utterance is not \<open>[(0, 0.18, cat)]\<close>.\<close>

theorem MLF_scenario_counterexample:
  "map_sum id (map grid_view) (MLF_read
     ''#!MLF!#\<newline>\"*/utt.lab\"\<newline>0 500000 k\<newline>500000 1200000 ae\<newline>1200000 1800000 t cat\<newline>.\<newline>''
     10000000 DEFAULT_MLF_PRECISION)
   \<noteq> Inr [[(PStr ''phones'', [(0, 5 / 100, ''k''), (5 / 100, 12 / 100, ''ae''), (12 / 100, 18 / 100, ''t'')]),
           (PStr ''words'', [(0, 18 / 100, ''cat'')])]]"
  unfolding MLF_read_def DEFAULT_MLF_PRECISION_def lines1
  by (simp add: fields name_line sample_times tier_eval)



section \<open>Properties of the TextGrid reader\<close>

lemma ebind_simps [simp]: "ebind (Inl e) f = Inl e" "ebind (Inr x) f = f x"
  by (simp_all add: ebind_def)







end
